theory Spec2Isabelle
  imports Complex_Main "HOL-Library.AList"
begin

section \<open>JavaScript numbers\<close>

text \<open>
  Where the modelled code only stores, compares or clamps a number that it is given (an
  intensity, a keyframe time, a clock reading), the number is a real. Where it divides,
  or adds up quotients, the result can be an infinity or \<open>NaN\<close>, and the sign of a zero
  divisor decides the sign of the infinity; there a number is a \<open>jsnum\<close>: a real
  (\<open>Fin 0\<close> is \<open>+0\<close>), \<open>-0\<close>, the two infinities or \<open>NaN\<close>, with the arithmetic of
  IEEE 754 doubles on them. Two things that doubles do are left out: a finite result is
  not rounded, and a non-zero result does not underflow to zero. A result overflows to an
  infinity when its magnitude reaches \<open>2^1024 - 2^970\<close>, the point from which rounding to
  nearest leaves the finite doubles.
\<close>

datatype jsnum = Fin real | NegZero | PosInf | NegInf | JsNaN

definition js_huge :: real where
  "js_huge = 2 ^ 1024 - 2 ^ 970"

definition js_fin :: "real \<Rightarrow> jsnum" where
  "js_fin x = (if js_huge \<le> x then PosInf else if x \<le> - js_huge then NegInf else Fin x)"

definition js_zero :: "jsnum \<Rightarrow> bool" where
  "js_zero a \<longleftrightarrow> a = Fin 0 \<or> a = NegZero"

definition js_infinite :: "jsnum \<Rightarrow> bool" where
  "js_infinite a \<longleftrightarrow> a = PosInf \<or> a = NegInf"

text \<open>The sign bit (of a number that is not \<open>NaN\<close>).\<close>

fun js_negative :: "jsnum \<Rightarrow> bool" where
  "js_negative (Fin x) = (x < 0)"
| "js_negative NegZero = True"
| "js_negative NegInf = True"
| "js_negative PosInf = False"
| "js_negative JsNaN = False"

text \<open>The value of a finite number.\<close>

fun js_real :: "jsnum \<Rightarrow> real" where
  "js_real (Fin x) = x"
| "js_real a = 0"

fun js_neg :: "jsnum \<Rightarrow> jsnum" where
  "js_neg (Fin x) = (if x = 0 then NegZero else Fin (- x))"
| "js_neg NegZero = Fin 0"
| "js_neg PosInf = NegInf"
| "js_neg NegInf = PosInf"
| "js_neg JsNaN = JsNaN"

text \<open>\<open>a + b\<close>: opposite infinities give \<open>NaN\<close>; a sum that is zero is \<open>+0\<close> unless both are \<open>-0\<close>.\<close>

fun js_add :: "jsnum \<Rightarrow> jsnum \<Rightarrow> jsnum" where
  "js_add JsNaN b = JsNaN"
| "js_add a JsNaN = JsNaN"
| "js_add PosInf NegInf = JsNaN"
| "js_add NegInf PosInf = JsNaN"
| "js_add PosInf b = PosInf"
| "js_add a PosInf = PosInf"
| "js_add NegInf b = NegInf"
| "js_add a NegInf = NegInf"
| "js_add NegZero b = b"
| "js_add a NegZero = a"
| "js_add (Fin x) (Fin y) = js_fin (x + y)"

definition js_sub :: "jsnum \<Rightarrow> jsnum \<Rightarrow> jsnum" where
  "js_sub a b = js_add a (js_neg b)"

text \<open>The sign of a product or quotient: negative when exactly one operand is.\<close>

definition js_sign :: "jsnum \<Rightarrow> jsnum \<Rightarrow> jsnum \<Rightarrow> jsnum \<Rightarrow> jsnum" where
  "js_sign a b pos neg = (if js_negative a \<noteq> js_negative b then neg else pos)"

text \<open>\<open>a * b\<close>: infinity times zero is \<open>NaN\<close>.\<close>

definition js_mul :: "jsnum \<Rightarrow> jsnum \<Rightarrow> jsnum" where
  "js_mul a b =
     (if a = JsNaN \<or> b = JsNaN then JsNaN
      else if (js_infinite a \<and> js_zero b) \<or> (js_zero a \<and> js_infinite b) then JsNaN
      else if js_infinite a \<or> js_infinite b then js_sign a b PosInf NegInf
      else if js_zero a \<or> js_zero b then js_sign a b (Fin 0) NegZero
      else js_fin (js_real a * js_real b))"

text \<open>
  \<open>a / b\<close>: zero by zero and infinity by infinity are \<open>NaN\<close>; anything else divided by a
  zero is an infinity, and divided by an infinity is a zero.
\<close>

definition js_div :: "jsnum \<Rightarrow> jsnum \<Rightarrow> jsnum" where
  "js_div a b =
     (if a = JsNaN \<or> b = JsNaN then JsNaN
      else if (js_infinite a \<and> js_infinite b) \<or> (js_zero a \<and> js_zero b) then JsNaN
      else if js_infinite a \<or> js_zero b then js_sign a b PosInf NegInf
      else if js_zero a \<or> js_infinite b then js_sign a b (Fin 0) NegZero
      else js_fin (js_real a / js_real b))"

text \<open>\<open>a < b\<close>, \<open>a <= b\<close>, \<open>a >= b\<close>: false when an operand is \<open>NaN\<close>; \<open>-0\<close> equals \<open>+0\<close>.\<close>

definition js_lt :: "jsnum \<Rightarrow> jsnum \<Rightarrow> bool" where
  "js_lt a b \<longleftrightarrow>
     a \<noteq> JsNaN \<and> b \<noteq> JsNaN \<and> a \<noteq> PosInf \<and> b \<noteq> NegInf
     \<and> (a = NegInf \<or> b = PosInf \<or> js_real a < js_real b)"

definition js_le :: "jsnum \<Rightarrow> jsnum \<Rightarrow> bool" where
  "js_le a b \<longleftrightarrow>
     a \<noteq> JsNaN \<and> b \<noteq> JsNaN
     \<and> (a = NegInf \<or> b = PosInf
        \<or> (a \<noteq> PosInf \<and> b \<noteq> NegInf \<and> js_real a \<le> js_real b))"

definition js_ge :: "jsnum \<Rightarrow> jsnum \<Rightarrow> bool" where
  "js_ge a b = js_le b a"

text \<open>\<open>Math.max(a, b)\<close> and \<open>Math.min(a, b)\<close>: \<open>NaN\<close> when an operand is; \<open>+0\<close> is above \<open>-0\<close>.\<close>

definition js_max :: "jsnum \<Rightarrow> jsnum \<Rightarrow> jsnum" where
  "js_max a b =
     (if a = JsNaN \<or> b = JsNaN then JsNaN
      else if js_lt a b then b else if js_lt b a then a
      else if a = NegZero then b else a)"

definition js_min :: "jsnum \<Rightarrow> jsnum \<Rightarrow> jsnum" where
  "js_min a b =
     (if a = JsNaN \<or> b = JsNaN then JsNaN
      else if js_lt a b then a else if js_lt b a then b
      else if a = NegZero then a else b)"

section \<open>PerformanceOptimizer\<close>

text \<open>The class has one mutable field, \<open>frameRates\<close>; the other three are constants.\<close>

record PerformanceOptimizer =
  frameRates :: "jsnum list"

definition maxSamples :: nat where
  "maxSamples = 60"

definition targetFPS :: real where
  "targetFPS = 60"

definition minFPS :: real where
  "minFPS = 30"

definition reset :: "PerformanceOptimizer \<Rightarrow> PerformanceOptimizer" where
  "reset s = s\<lparr>frameRates := []\<rparr>"

text \<open>The constructor calls \<open>reset()\<close> on the freshly initialised fields.\<close>

definition PerformanceOptimizer_new :: PerformanceOptimizer where
  "PerformanceOptimizer_new = reset \<lparr>frameRates = []\<rparr>"

text \<open>
  \<open>fps = 1 / deltaTime\<close> for any number \<open>deltaTime\<close>; \<open>push\<close> appends at the end,
  \<open>shift\<close> removes the first element.
\<close>

definition addFrameTime :: "jsnum \<Rightarrow> PerformanceOptimizer \<Rightarrow> PerformanceOptimizer" where
  "addFrameTime deltaTime s =
     (let fps = js_div (Fin 1) deltaTime;
          pushed = frameRates s @ [fps]
      in s\<lparr>frameRates := (if length pushed > maxSamples then tl pushed else pushed)\<rparr>)"

text \<open>\<open>reduce((a, b) => a + b, 0)\<close> adds from the left, starting at 0.\<close>

definition getAverageFPS :: "PerformanceOptimizer \<Rightarrow> jsnum" where
  "getAverageFPS s =
     (if length (frameRates s) = 0 then Fin 60
      else js_div (foldl js_add (Fin 0) (frameRates s)) (Fin (real (length (frameRates s)))))"

definition getPerformanceLevel :: "PerformanceOptimizer \<Rightarrow> jsnum" where
  "getPerformanceLevel s =
     (let avgFPS = getAverageFPS s
      in js_min (Fin 1)
           (js_max (Fin 0)
              (js_div (js_sub avgFPS (Fin minFPS)) (js_sub (Fin targetFPS) (Fin minFPS)))))"

text \<open>
  The requested count is a real (any finite number, not only a whole one).
  \<open>Math.floor\<close> returns a number; the last branch returns the argument itself.
\<close>

definition adjustParticleCount :: "PerformanceOptimizer \<Rightarrow> real \<Rightarrow> real" where
  "adjustParticleCount s requestedCount =
     (let performanceLevel = getPerformanceLevel s
      in if js_lt performanceLevel (Fin 0.3) then of_int \<lfloor>requestedCount * 0.25\<rfloor>
         else if js_lt performanceLevel (Fin 0.6) then of_int \<lfloor>requestedCount * 0.5\<rfloor>
         else if js_lt performanceLevel (Fin 0.8) then of_int \<lfloor>requestedCount * 0.75\<rfloor>
         else requestedCount)"

text \<open>A frame loop: one \<open>addFrameTime\<close> call per frame delta, in order.\<close>

definition addFrameTimes :: "jsnum list \<Rightarrow> PerformanceOptimizer \<Rightarrow> PerformanceOptimizer" where
  "addFrameTimes deltas s = foldl (\<lambda>s' d. addFrameTime d s') s deltas"

section \<open>EffectManager\<close>

text \<open>Values of a parameter bag (\<open>Record<string, any>\<close>): the manager only copies and merges them.\<close>

datatype jsval = JNum real | JBool bool | JStr string | JArr "jsval list"

type_synonym params = "string \<rightharpoonup> jsval"

datatype category = particles | geometry | postprocessing | environment

datatype impact = low | medium | high

text \<open>An optional field is an \<open>option\<close>: \<open>None\<close> is \<open>undefined\<close>.\<close>

record Effect =
  id_eff :: string
  name_eff :: string
  description_eff :: string
  category :: category
  performanceImpact :: impact
  dependencies :: "string list option"
  conflictsWith :: "string list option"
  parameters_eff :: "params option"

record EffectState =
  effect :: Effect
  enabled :: bool
  intensity :: real
  parameters :: params
  lastUpdate :: real

text \<open>
  A JavaScript \<open>Map\<close> keeps insertion order: it is an association list, \<open>set\<close> is
  \<open>AList.update\<close> (replace in place, or append), \<open>delete\<close> is \<open>AList.delete\<close>.
  The listener set is represented by what it observes: \<open>notifications\<close> holds the
  payload of every \<open>notifyListeners\<close> call, oldest first; each registered listener
  receives exactly these payloads (a listener's exception is caught and logged).
\<close>

record EffectManager =
  effects :: "(string \<times> Effect) list"
  activeEffects :: "(string \<times> EffectState) list"
  globalIntensity :: real
  notifications :: "EffectState list list"

definition mk_effect ::
  "string \<Rightarrow> string \<Rightarrow> string \<Rightarrow> category \<Rightarrow> impact \<Rightarrow> string list option
    \<Rightarrow> (string \<times> jsval) list \<Rightarrow> Effect" where
  "mk_effect i n d c p deps ps =
     \<lparr>id_eff = i, name_eff = n, description_eff = d, category = c, performanceImpact = p,
      dependencies = deps, conflictsWith = None, parameters_eff = Some (map_of ps)\<rparr>"

text \<open>The literal of \<open>initializeDefaultEffects\<close>; no entry declares \<open>conflictsWith\<close>.\<close>

definition defaultEffects :: "Effect list" where
  "defaultEffects =
    [mk_effect ''fire'' ''Fire Particles'' ''Realistic fire simulation with heat distortion''
       particles high None
       [(''temperature'', JNum 1.0), (''spread'', JNum 1.0), (''turbulence'', JNum 0.8)],
     mk_effect ''water'' ''Water Particles'' ''Fluid dynamics with splash and flow effects''
       particles medium None
       [(''viscosity'', JNum 0.1), (''surfaceTension'', JNum 0.5), (''flowSpeed'', JNum 1.0)],
     mk_effect ''snow'' ''Snow Particles'' ''Gentle falling snow with wind patterns''
       particles low None
       [(''windStrength'', JNum 0.5), (''flakeSize'', JNum 1.0), (''density'', JNum 1.0)],
     mk_effect ''cosmic'' ''Cosmic Particles'' ''Stellar dust, star formation, and cosmic phenomena''
       particles high None
       [(''starDensity'', JNum 0.5), (''nebulaIntensity'', JNum 0.8),
        (''cosmicRayFrequency'', JNum 0.3)],
     mk_effect ''plasma'' ''Plasma Particles'' ''Electromagnetic plasma fields and discharge''
       particles high None
       [(''electricField'', JNum 2.0), (''magneticStrength'', JNum 1.5),
        (''plasmaFrequency'', JNum 10.0)],
     mk_effect ''floating_islands'' ''Floating Islands''
       ''Mystical floating landmasses with vegetation'' geometry medium None
       [(''islandCount'', JNum 6), (''vegetationDensity'', JNum 0.7), (''floatAmplitude'', JNum 2.0)],
     mk_effect ''crystals'' ''Crystal Formations''
       ''Dynamic crystal clusters with refractive properties'' geometry medium None
       [(''growthSpeed'', JNum 0.5), (''refractionIndex'', JNum 0.95), (''energyLevel'', JNum 1.0)],
     mk_effect ''energy_orbs'' ''Energy Orbs''
       ''Electromagnetic energy spheres with particle trails'' geometry medium None
       [(''orbCount'', JNum 15), (''trailLength'', JNum 100), (''electricalForce'', JNum 1.0)],
     mk_effect ''waves'' ''Wave System'' ''Advanced wave simulation with interference patterns''
       geometry high None
       [(''waveHeight'', JNum 2.0), (''frequency'', JNum 0.03), (''interference'', JBool True)],
     mk_effect ''fractal_trees'' ''Fractal Trees'' ''Procedurally generated tree structures''
       geometry medium None
       [(''complexity'', JNum 5), (''branchingFactor'', JNum 0.8), (''windEffect'', JNum 0.5)],
     mk_effect ''geometric_shapes'' ''Geometric Shapes''
       ''Animated mathematical forms and patterns'' geometry low None
       [(''morphingSpeed'', JNum 1.0), (''geometricComplexity'', JNum 1.0),
        (''rotationSpeed'', JNum 0.5)],
     mk_effect ''liquid'' ''Liquid Simulation'' ''Advanced fluid dynamics with metaballs''
       geometry high None
       [(''viscosity'', JNum 0.1), (''surfaceTension'', JNum 0.8), (''particleDensity'', JNum 1.0)],
     mk_effect ''bloom'' ''Bloom Effect'' ''Luminous glow around bright objects''
       postprocessing medium None
       [(''strength'', JNum 1.0), (''threshold'', JNum 0.3), (''radius'', JNum 0.8)],
     mk_effect ''chromatic_aberration'' ''Chromatic Aberration''
       ''Color separation effect for artistic distortion'' postprocessing low None
       [(''intensity'', JNum 0.002), (''distortion'', JNum 1.0)],
     mk_effect ''film_grain'' ''Film Grain'' ''Vintage film noise and scanlines''
       postprocessing low None
       [(''grainIntensity'', JNum 0.3), (''scanlineIntensity'', JNum 0.4)],
     mk_effect ''kaleidoscope'' ''Kaleidoscope'' ''Symmetrical pattern reflection effect''
       postprocessing medium None
       [(''sides'', JNum 6), (''rotation'', JNum 0.1), (''radius'', JNum 0.5)],
     mk_effect ''pixelation'' ''Pixelation'' ''Retro pixel art effect''
       postprocessing low None
       [(''pixelSize'', JNum 4.0)],
     mk_effect ''vortex'' ''Vortex Distortion'' ''Swirling distortion effect''
       postprocessing medium None
       [(''strength'', JNum 1.0), (''center'', JArr [JNum 0.5, JNum 0.5])],
     mk_effect ''procedural_terrain'' ''Procedural Terrain''
       ''Dynamic terrain generation with real-time deformation'' environment high None
       [(''complexity'', JNum 64), (''deformation'', JNum 1.0), (''textureBlending'', JBool True)],
     mk_effect ''audio_reactive'' ''Audio Reactive''
       ''Visual effects synchronized to audio frequency data'' environment medium
       (Some [''audio_context''])
       [(''sensitivity'', JNum 1.0), (''frequencyRange'', JArr [JNum 20, JNum 20000]),
        (''visualizerType'', JStr ''spectrum'')]]"

text \<open>The constructor: \<open>effects.set(effect.id, effect)\<close> for each default, in order.\<close>

definition EffectManager_new :: EffectManager where
  "EffectManager_new =
     \<lparr>effects = foldl (\<lambda>m e. AList.update (id_eff e) e m) [] defaultEffects,
      activeEffects = [], globalIntensity = 1.0, notifications = []\<rparr>"

definition getActiveEffects :: "EffectManager \<Rightarrow> EffectState list" where
  "getActiveEffects s = map snd (activeEffects s)"

definition isEffectActive :: "EffectManager \<Rightarrow> string \<Rightarrow> bool" where
  "isEffectActive s effectId = (map_of (activeEffects s) effectId \<noteq> None)"

definition notifyListeners :: "EffectManager \<Rightarrow> EffectManager" where
  "notifyListeners s = s\<lparr>notifications := notifications s @ [getActiveEffects s]\<rparr>"

definition disableEffect :: "string \<Rightarrow> EffectManager \<Rightarrow> bool \<times> EffectManager" where
  "disableEffect effectId s =
     (if isEffectActive s effectId
      then (True, notifyListeners (s\<lparr>activeEffects := AList.delete effectId (activeEffects s)\<rparr>))
      else (False, s))"

text \<open>One step of the \<open>conflictsWith.forEach\<close> loop.\<close>

definition disableConflict :: "EffectManager \<Rightarrow> string \<Rightarrow> EffectManager" where
  "disableConflict s conflictId =
     (if isEffectActive s conflictId then snd (disableEffect conflictId s) else s)"

definition missingDeps :: "EffectManager \<Rightarrow> string list \<Rightarrow> string list" where
  "missingDeps s deps = filter (\<lambda>dep. \<not> isEffectActive s dep) deps"

text \<open>The dependency check passes: \<open>missingDeps.length > 0\<close> is false, or there is no list.\<close>

definition depsSatisfied :: "EffectManager \<Rightarrow> Effect \<Rightarrow> bool" where
  "depsSatisfied s e =
     (case dependencies e of None \<Rightarrow> True | Some deps \<Rightarrow> missingDeps s deps = [])"

text \<open>\<open>{ ...effect.parameters }\<close>: spreading \<open>undefined\<close> gives the empty object.\<close>

definition defaultParameters :: "Effect \<Rightarrow> params" where
  "defaultParameters e = (case parameters_eff e of None \<Rightarrow> Map.empty | Some p \<Rightarrow> p)"

text \<open>\<open>now\<close> is the reading of \<open>Date.now()\<close>; it only reaches \<open>lastUpdate\<close>.\<close>

definition enableEffect :: "real \<Rightarrow> string \<Rightarrow> real \<Rightarrow> EffectManager \<Rightarrow> bool \<times> EffectManager" where
  "enableEffect now effectId intensity' s =
     (case map_of (effects s) effectId of
        None \<Rightarrow> (False, s)
      | Some e \<Rightarrow>
          if (case dependencies e of None \<Rightarrow> False | Some deps \<Rightarrow> length (missingDeps s deps) > 0)
          then (False, s)
          else
            let s1 = (case conflictsWith e of None \<Rightarrow> s
                      | Some conflicts \<Rightarrow> foldl disableConflict s conflicts);
                effectState = \<lparr>effect = e, enabled = True,
                               intensity = max 0 (min 2 intensity'),
                               parameters = defaultParameters e, lastUpdate = now\<rparr>
            in (True, notifyListeners
                  (s1\<lparr>activeEffects := AList.update effectId effectState (activeEffects s1)\<rparr>)))"

text \<open>The default argument \<open>intensity = 1.0\<close> applies when the caller passes \<open>undefined\<close>.\<close>

definition enableEffect_opt ::
  "real \<Rightarrow> string \<Rightarrow> real option \<Rightarrow> EffectManager \<Rightarrow> bool \<times> EffectManager" where
  "enableEffect_opt now effectId intensity' s =
     enableEffect now effectId (case intensity' of None \<Rightarrow> 1.0 | Some i \<Rightarrow> i) s"

definition toggleEffect ::
  "real \<Rightarrow> string \<Rightarrow> real option \<Rightarrow> EffectManager \<Rightarrow> bool \<times> EffectManager" where
  "toggleEffect now effectId intensity' s =
     (if isEffectActive s effectId then disableEffect effectId s
      else enableEffect_opt now effectId intensity' s)"

definition setEffectIntensity ::
  "real \<Rightarrow> string \<Rightarrow> real \<Rightarrow> EffectManager \<Rightarrow> bool \<times> EffectManager" where
  "setEffectIntensity now effectId intensity' s =
     (case map_of (activeEffects s) effectId of
        Some effectState \<Rightarrow>
          (True, notifyListeners
             (s\<lparr>activeEffects := AList.update effectId
                   (effectState\<lparr>intensity := max 0 (min 2 intensity'), lastUpdate := now\<rparr>)
                   (activeEffects s)\<rparr>))
      | None \<Rightarrow> (False, s))"

text \<open>\<open>{ ...effectState.parameters, ...parameters }\<close>: the right operand wins.\<close>

definition setEffectParameters ::
  "real \<Rightarrow> string \<Rightarrow> params \<Rightarrow> EffectManager \<Rightarrow> bool \<times> EffectManager" where
  "setEffectParameters now effectId ps s =
     (case map_of (activeEffects s) effectId of
        Some effectState \<Rightarrow>
          (True, notifyListeners
             (s\<lparr>activeEffects := AList.update effectId
                   (effectState\<lparr>parameters := parameters effectState ++ ps, lastUpdate := now\<rparr>)
                   (activeEffects s)\<rparr>))
      | None \<Rightarrow> (False, s))"

definition setGlobalIntensity :: "real \<Rightarrow> EffectManager \<Rightarrow> EffectManager" where
  "setGlobalIntensity intensity' s =
     notifyListeners (s\<lparr>globalIntensity := max 0 (min 2 intensity')\<rparr>)"

definition getGlobalIntensity :: "EffectManager \<Rightarrow> real" where
  "getGlobalIntensity s = globalIntensity s"

definition getEffectiveIntensity :: "EffectManager \<Rightarrow> string \<Rightarrow> real" where
  "getEffectiveIntensity s effectId =
     (case map_of (activeEffects s) effectId of
        Some effectState \<Rightarrow> intensity effectState * globalIntensity s
      | None \<Rightarrow> 0)"

definition enableAllEffects :: "real \<Rightarrow> EffectManager \<Rightarrow> EffectManager" where
  "enableAllEffects now s =
     foldl (\<lambda>s' i. snd (enableEffect now i 1.0 s')) s (map fst (effects s))"

definition disableAllEffects :: "EffectManager \<Rightarrow> EffectManager" where
  "disableAllEffects s = notifyListeners (s\<lparr>activeEffects := []\<rparr>)"

definition getRecommendedSettings :: "EffectManager \<Rightarrow> impact \<Rightarrow> string list" where
  "getRecommendedSettings s targetPerformance =
     map fst (filter (\<lambda>(i, e).
        (case targetPerformance of
           low \<Rightarrow> performanceImpact e = low
         | medium \<Rightarrow> performanceImpact e \<noteq> high
         | high \<Rightarrow> True)) (effects s))"

definition applyRecommendedSettings :: "real \<Rightarrow> impact \<Rightarrow> EffectManager \<Rightarrow> EffectManager" where
  "applyRecommendedSettings now targetPerformance s =
     (let s0 = disableAllEffects s
      in foldl (\<lambda>s' i. snd (enableEffect_opt now i None s')) s0
           (getRecommendedSettings s0 targetPerformance))"

text \<open>
  The exported plain object. Effect ids are identifier-like strings, for which an
  object enumerates its keys in insertion order, so \<open>activeEffects_cfg\<close> is an
  association list filled by assignment (\<open>AList.update\<close>).
\<close>

record ConfigEntry =
  intensity_cfg :: "real option"
  parameters_cfg :: "params option"

record Configuration =
  globalIntensity_cfg :: "real option"
  activeEffects_cfg :: "(string \<times> ConfigEntry) list option"

definition exportConfiguration :: "EffectManager \<Rightarrow> Configuration" where
  "exportConfiguration s =
     \<lparr>globalIntensity_cfg = Some (globalIntensity s),
      activeEffects_cfg = Some (foldl (\<lambda>cfg (i, effectState).
          AList.update i \<lparr>intensity_cfg = Some (intensity effectState),
                          parameters_cfg = Some (parameters effectState)\<rparr> cfg)
        [] (activeEffects s))\<rparr>"

text \<open>One step of the \<open>Object.entries(config.activeEffects).forEach\<close> loop.\<close>

definition importEntry :: "real \<Rightarrow> EffectManager \<Rightarrow> string \<times> ConfigEntry \<Rightarrow> EffectManager" where
  "importEntry now s entry =
     (case enableEffect_opt now (fst entry) (intensity_cfg (snd entry)) s of
        (True, s1) \<Rightarrow>
          (case parameters_cfg (snd entry) of
             Some ps \<Rightarrow> snd (setEffectParameters now (fst entry) ps s1)
           | None \<Rightarrow> s1)
      | (False, s1) \<Rightarrow> s1)"

text \<open>The clock reading is taken once for the whole (synchronous) call.\<close>

definition importConfiguration :: "real \<Rightarrow> Configuration \<Rightarrow> EffectManager \<Rightarrow> EffectManager" where
  "importConfiguration now config s =
     (let s0 = disableAllEffects s;
          s1 = (case globalIntensity_cfg config of
                  Some g \<Rightarrow> setGlobalIntensity g s0 | None \<Rightarrow> s0)
      in case activeEffects_cfg config of
           Some entries \<Rightarrow> foldl (importEntry now) s1 entries
         | None \<Rightarrow> s1)"

text \<open>The states of a manager that its public methods can produce.\<close>

inductive reachable :: "EffectManager \<Rightarrow> bool" where
  r_new: "reachable EffectManager_new"
| r_enable: "reachable s \<Longrightarrow> reachable (snd (enableEffect_opt now i v s))"
| r_disable: "reachable s \<Longrightarrow> reachable (snd (disableEffect i s))"
| r_toggle: "reachable s \<Longrightarrow> reachable (snd (toggleEffect now i v s))"
| r_intensity: "reachable s \<Longrightarrow> reachable (snd (setEffectIntensity now i x s))"
| r_parameters: "reachable s \<Longrightarrow> reachable (snd (setEffectParameters now i ps s))"
| r_global: "reachable s \<Longrightarrow> reachable (setGlobalIntensity x s)"
| r_enableAll: "reachable s \<Longrightarrow> reachable (enableAllEffects now s)"
| r_disableAll: "reachable s \<Longrightarrow> reachable (disableAllEffects s)"
| r_recommended: "reachable s \<Longrightarrow> reachable (applyRecommendedSettings now t s)"
| r_import: "reachable s \<Longrightarrow> reachable (importConfiguration now config s)"

text \<open>What a configuration round trip is compared on: everything but \<open>lastUpdate\<close>.\<close>

definition stateView ::
  "string \<times> EffectState \<Rightarrow> string \<times> Effect \<times> bool \<times> real \<times> params" where
  "stateView p = (fst p, effect (snd p), enabled (snd p), intensity (snd p), parameters (snd p))"

definition registryView ::
  "EffectManager \<Rightarrow> real \<times> (string \<times> Effect \<times> bool \<times> real \<times> params) list" where
  "registryView s = (globalIntensity s, map stateView (activeEffects s))"

text \<open>The entry that \<open>exportConfiguration\<close> writes for one active effect.\<close>

definition exported :: "string \<times> EffectState \<Rightarrow> string \<times> ConfigEntry" where
  "exported p = (fst p, \<lparr>intensity_cfg = Some (intensity (snd p)),
                          parameters_cfg = Some (parameters (snd p))\<rparr>)"

definition refreshed :: "real \<Rightarrow> string \<times> EffectState \<Rightarrow> string \<times> EffectState" where
  "refreshed now p = (fst p, (snd p)\<lparr>lastUpdate := now\<rparr>)"

subsection \<open>The invariant of the shipped catalog\<close>

text \<open>
  In the shipped catalog no effect declares a conflict, and the only effect with a
  dependency (\<open>audio_reactive\<close>) depends on an id that is not in the catalog, so it can
  never be enabled. \<open>catalog_plain\<close> states this of a catalog; \<open>registry_ok\<close> is the
  invariant that the public methods then maintain.
\<close>

definition catalog_plain :: "(string \<times> Effect) list \<Rightarrow> bool" where
  "catalog_plain c \<longleftrightarrow>
     (\<forall>(i, e) \<in> set c. conflictsWith e = None
        \<and> (case dependencies e of None \<Rightarrow> True
            | Some deps \<Rightarrow> \<exists>d\<in>set deps. map_of c d = None))"

definition state_ok :: "(string \<times> Effect) list \<Rightarrow> string \<times> EffectState \<Rightarrow> bool" where
  "state_ok c p \<longleftrightarrow>
     map_of c (fst p) = Some (effect (snd p))
     \<and> dependencies (effect (snd p)) = None
     \<and> conflictsWith (effect (snd p)) = None
     \<and> enabled (snd p)
     \<and> 0 \<le> intensity (snd p) \<and> intensity (snd p) \<le> 2
     \<and> dom (defaultParameters (effect (snd p))) \<subseteq> dom (parameters (snd p))"

definition registry_ok :: "EffectManager \<Rightarrow> bool" where
  "registry_ok s \<longleftrightarrow>
     catalog_plain (effects s)
     \<and> distinct (map fst (activeEffects s))
     \<and> 0 \<le> globalIntensity s \<and> globalIntensity s \<le> 2
     \<and> list_all (state_ok (effects s)) (activeEffects s)"

subsection \<open>A catalog with conflicts\<close>

text \<open>
  The conflict branch of \<open>enableEffect\<close> is not reached with the shipped catalog. To
  exercise it: a manager whose catalog has three effects, where \<open>a\<close> conflicts with \<open>b\<close>
  and \<open>b\<close> conflicts with \<open>c\<close>; \<open>demo_manager_bc\<close> is that manager after \<open>b\<close> and then
  \<open>c\<close> have been enabled (enabling \<open>c\<close> does not disable \<open>b\<close>: \<open>c\<close> declares no conflict).
\<close>

definition demo_effect_a :: Effect where
  "demo_effect_a =
     (mk_effect ''a'' ''A'' [] particles low None [])\<lparr>conflictsWith := Some [''b'']\<rparr>"

definition demo_effect_b :: Effect where
  "demo_effect_b =
     (mk_effect ''b'' ''B'' [] particles low None [])\<lparr>conflictsWith := Some [''c'']\<rparr>"

definition demo_effect_c :: Effect where
  "demo_effect_c = mk_effect ''c'' ''C'' [] particles low None []"

definition demo_manager :: EffectManager where
  "demo_manager =
     \<lparr>effects = [(''a'', demo_effect_a), (''b'', demo_effect_b), (''c'', demo_effect_c)],
      activeEffects = [], globalIntensity = 1, notifications = []\<rparr>"

definition demo_manager_bc :: EffectManager where
  "demo_manager_bc = snd (enableEffect 2 ''c'' 1 (snd (enableEffect 1 ''b'' 1 demo_manager)))"

section \<open>AnimationSequencer\<close>

text \<open>
  Keyframe property values. A number is a real or \<open>NaN\<close>: interpolating an array against a
  shorter one reads \<open>undefined\<close> past its end, and arithmetic on \<open>undefined\<close> is \<open>NaN\<close>.
  Arrays hold numbers, as in every sequence of the repository; any other value (a colour
  string, say) is \<open>POther\<close>, and a key that an object lacks reads as \<open>PUndefined\<close>.
\<close>

datatype knum = Num real | NaN

datatype propval = PNum knum | PArr "knum list" | POther string | PUndefined

type_synonym bag = "(string \<times> propval) list"

record AnimationKeyframe =
  time :: real
  properties :: bag
  easing :: "(real \<Rightarrow> real) option"

record AnimationTrack =
  id_trk :: string
  keyframes :: "AnimationKeyframe list"
  loop_trk :: "bool option"
  duration_trk :: "real option"

text \<open>
  The three optional callbacks are modelled by their presence: a call is recorded in the
  sequencer's event log, what the callback itself does is outside the class.
\<close>

record AnimationSequence =
  id_seq :: string
  name_seq :: string
  description_seq :: string
  tracks :: "AnimationTrack list"
  duration :: jsnum
  loop :: bool
  onStart :: bool
  onUpdate :: bool
  onComplete :: bool

text \<open>What \<open>emit\<close> sends and which callbacks are called, in order.\<close>

datatype event =
    SequenceAdded string
  | SequenceRemoved string
  | EvPlay string
  | EvPause "string option"
  | EvStop "string option"
  | SpeedChanged real
  | EvLoop string
  | EvComplete string
  | EvUpdate string jsnum "(string \<times> bag) list"
  | CallOnStart
  | CallOnUpdate jsnum
  | CallOnComplete

record AnimationSequencer =
  sequences :: "(string \<times> AnimationSequence) list"
  currentSequence :: "AnimationSequence option"
  startTime :: real
  isPlaying :: bool
  speed :: real
  progress :: jsnum
  events :: "event list"

text \<open>\<open>a + (b - a) * u\<close> on numbers that may be \<open>NaN\<close>.\<close>

fun lerp :: "knum \<Rightarrow> knum \<Rightarrow> real \<Rightarrow> knum" where
  "lerp (Num a) (Num b) u = Num (a + (b - a) * u)"
| "lerp _ _ u = NaN"

text \<open>\<open>prevValue.map((val, index) => val + (nextValue[index] - val) * easedT)\<close>.\<close>

fun lerp_array :: "knum list \<Rightarrow> knum list \<Rightarrow> real \<Rightarrow> knum list" where
  "lerp_array [] bs u = []"
| "lerp_array (a # as) [] u = NaN # lerp_array as [] u"
| "lerp_array (a # as) (b # bs) u = lerp a b u # lerp_array as bs u"

fun interpolateValue :: "real \<Rightarrow> propval \<Rightarrow> propval \<Rightarrow> propval" where
  "interpolateValue easedT (PNum a) (PNum b) = PNum (lerp a b easedT)"
| "interpolateValue easedT (PArr as) (PArr bs) = PArr (lerp_array as bs easedT)"
| "interpolateValue easedT prevValue nextValue = (if easedT < 0.5 then prevValue else nextValue)"

text \<open>
  The scan \<open>for (i = 0; i < keyframes.length - 1; i++)\<close>: the first adjacent pair that
  encloses the time, if there is one.
\<close>

fun findSurrounding ::
  "real \<Rightarrow> AnimationKeyframe list \<Rightarrow> (AnimationKeyframe \<times> AnimationKeyframe) option" where
  "findSurrounding t (a # b # rest) =
     (if t \<ge> time a \<and> t \<le> time b then Some (a, b) else findSurrounding t (b # rest))"
| "findSurrounding t ks = None"

definition getProperty :: "bag \<Rightarrow> string \<Rightarrow> propval" where
  "getProperty b key = (case map_of b key of Some v \<Rightarrow> v | None \<Rightarrow> PUndefined)"

definition interpolateTrack :: "AnimationTrack \<Rightarrow> real \<Rightarrow> bag" where
  "interpolateTrack track t =
     (let ks = keyframes track
      in if length ks = 0 then []
         else
           let (prevKeyframe, nextKeyframe) =
                 (case findSurrounding t ks of Some pr \<Rightarrow> pr | None \<Rightarrow> (hd ks, last ks))
           in if t \<le> time prevKeyframe then properties prevKeyframe
              else if t \<ge> time nextKeyframe then properties nextKeyframe
              else
                let d = time nextKeyframe - time prevKeyframe;
                    u = (t - time prevKeyframe) / d;
                    easedT = (case easing nextKeyframe of Some f \<Rightarrow> f u | None \<Rightarrow> u)
                in map (\<lambda>(key, prevValue).
                          (key, interpolateValue easedT prevValue
                                  (getProperty (properties nextKeyframe) key)))
                     (properties prevKeyframe))"

text \<open>
  \<open>update\<close> can pass \<open>interpolateTrack\<close> a time that is not a finite number (a
  sequence duration of zero, say). Keyframe times are finite, so the same code then
  does this: \<open>-0\<close> compares and subtracts like \<open>0\<close>; \<open>Infinity\<close> is enclosed by no pair
  and is not below the first keyframe, so the last keyframe's bag is returned, and
  \<open>-Infinity\<close> returns the first keyframe's bag; for \<open>NaN\<close> every comparison is false, so
  the code interpolates between the first and the last keyframe with \<open>t = NaN\<close>. An
  easing function is a numeric expression in its argument and is taken to map \<open>NaN\<close> to
  \<open>NaN\<close>; then \<open>a + (b - a) * easedT\<close> is \<open>NaN\<close> and \<open>easedT < 0.5\<close> is false.
\<close>

fun interpolateValueNaN :: "propval \<Rightarrow> propval \<Rightarrow> propval" where
  "interpolateValueNaN (PNum a) (PNum b) = PNum NaN"
| "interpolateValueNaN (PArr as) (PArr bs) = PArr (map (\<lambda>val. NaN) as)"
| "interpolateValueNaN prevValue nextValue = nextValue"

definition interpolateTrackAt :: "AnimationTrack \<Rightarrow> jsnum \<Rightarrow> bag" where
  "interpolateTrackAt track t =
     (case t of
        Fin x \<Rightarrow> interpolateTrack track x
      | NegZero \<Rightarrow> interpolateTrack track 0
      | PosInf \<Rightarrow>
          (if length (keyframes track) = 0 then [] else properties (last (keyframes track)))
      | NegInf \<Rightarrow>
          (if length (keyframes track) = 0 then [] else properties (hd (keyframes track)))
      | JsNaN \<Rightarrow>
          (if length (keyframes track) = 0 then []
           else map (\<lambda>(key, prevValue).
                       (key, interpolateValueNaN prevValue
                               (getProperty (properties (last (keyframes track))) key)))
                  (properties (hd (keyframes track)))))"

definition addSequence :: "AnimationSequence \<Rightarrow> AnimationSequencer \<Rightarrow> AnimationSequencer" where
  "addSequence sq s =
     s\<lparr>sequences := AList.update (id_seq sq) sq (sequences s),
       events := events s @ [SequenceAdded (id_seq sq)]\<rparr>"

definition removeSequence :: "string \<Rightarrow> AnimationSequencer \<Rightarrow> AnimationSequencer" where
  "removeSequence i s =
     (if map_of (sequences s) i \<noteq> None
      then s\<lparr>sequences := AList.delete i (sequences s),
             events := events s @ [SequenceRemoved i]\<rparr>
      else s)"

text \<open>
  \<open>play(sequenceId?)\<close>: \<open>if (sequenceId)\<close> is false for \<open>undefined\<close> and for the
  empty string. \<open>now\<close> is the reading of \<open>Date.now()\<close>, in milliseconds.
\<close>

definition play :: "real \<Rightarrow> string option \<Rightarrow> AnimationSequencer \<Rightarrow> AnimationSequencer" where
  "play now sequenceId s =
     (let selected =
            (case sequenceId of
               None \<Rightarrow> Some s
             | Some i \<Rightarrow>
                 if i = [] then Some s
                 else (case map_of (sequences s) i of
                         None \<Rightarrow> None
                       | Some sq \<Rightarrow> Some (s\<lparr>currentSequence := Some sq\<rparr>)))
      in case selected of
           None \<Rightarrow> s
         | Some s1 \<Rightarrow>
             (case currentSequence s1 of
                None \<Rightarrow> s1
              | Some sq \<Rightarrow>
                  s1\<lparr>isPlaying := True, startTime := now,
                     events := events s1 @ (if onStart sq then [CallOnStart] else [])
                                 @ [EvPlay (id_seq sq)]\<rparr>))"

definition pause :: "AnimationSequencer \<Rightarrow> AnimationSequencer" where
  "pause s =
     s\<lparr>isPlaying := False,
       events := events s @ [EvPause (map_option id_seq (currentSequence s))]\<rparr>"

definition stop :: "AnimationSequencer \<Rightarrow> AnimationSequencer" where
  "stop s =
     s\<lparr>isPlaying := False, progress := Fin 0, startTime := 0,
       events := events s @ [EvStop (map_option id_seq (currentSequence s))]\<rparr>"

definition setSpeed :: "real \<Rightarrow> AnimationSequencer \<Rightarrow> AnimationSequencer" where
  "setSpeed v s =
     s\<lparr>speed := max 0.1 (min 5 v),
       events := events s @ [SpeedChanged (max 0.1 (min 5 v))]\<rparr>"

text \<open>The tail of \<open>update\<close>: resolve every track at the current time and report.\<close>

definition updateTracks :: "AnimationSequence \<Rightarrow> AnimationSequencer \<Rightarrow> AnimationSequencer" where
  "updateTracks sq s =
     (let currentTime = js_mul (progress s) (duration sq);
          frameData = foldl (\<lambda>fd track.
                        AList.update (id_trk track) (interpolateTrackAt track currentTime) fd)
                      [] (tracks sq)
      in s\<lparr>events := events s @ (if onUpdate sq then [CallOnUpdate (progress s)] else [])
                        @ [EvUpdate (id_seq sq) (progress s) frameData]\<rparr>)"

text \<open>\<open>(now - this.startTime) * 0.001 * this.speed\<close>, the seconds played since the start time.\<close>

definition elapsed :: "real \<Rightarrow> AnimationSequencer \<Rightarrow> jsnum" where
  "elapsed now s = js_mul (js_mul (js_sub (Fin now) (Fin (startTime s))) (Fin 0.001)) (Fin (speed s))"

text \<open>
  \<open>update\<close> stores \<open>elapsed / duration\<close> as the progress before it tests it: for a zero
  duration that is an infinity or \<open>NaN\<close>.
\<close>

definition update :: "real \<Rightarrow> AnimationSequencer \<Rightarrow> AnimationSequencer" where
  "update now s =
     (case currentSequence s of
        None \<Rightarrow> s
      | Some sq \<Rightarrow>
          if \<not> isPlaying s then s
          else
            let s1 = s\<lparr>progress := js_div (elapsed now s) (duration sq)\<rparr>
            in if js_ge (progress s1) (Fin 1)
               then if loop sq
                    then updateTracks sq
                           (s1\<lparr>startTime := now, progress := Fin 0,
                               events := events s1 @ [EvLoop (id_seq sq)]\<rparr>)
                    else s1\<lparr>progress := Fin 1, isPlaying := False,
                            events := events s1
                              @ (if onComplete sq then [CallOnComplete] else [])
                              @ [EvComplete (id_seq sq)]\<rparr>
               else updateTracks sq s1)"

definition mk_keyframe :: "real \<Rightarrow> bag \<Rightarrow> AnimationKeyframe" where
  "mk_keyframe t ps = \<lparr>time = t, properties = ps, easing = None\<rparr>"

definition mk_track :: "string \<Rightarrow> AnimationKeyframe list \<Rightarrow> AnimationTrack" where
  "mk_track i ks = \<lparr>id_trk = i, keyframes = ks, loop_trk = None, duration_trk = None\<rparr>"

definition mk_sequence ::
  "string \<Rightarrow> string \<Rightarrow> string \<Rightarrow> jsnum \<Rightarrow> bool \<Rightarrow> AnimationTrack list \<Rightarrow> AnimationSequence" where
  "mk_sequence i n d dur lp ts =
     \<lparr>id_seq = i, name_seq = n, description_seq = d, tracks = ts, duration = dur, loop = lp,
      onStart = False, onUpdate = False, onComplete = False\<rparr>"

text \<open>The five literals of \<open>initializeDefaultSequences\<close>.\<close>

definition sequence_cosmic :: AnimationSequence where
  "sequence_cosmic =
     mk_sequence ''cosmic'' ''Cosmic Journey''
       ''Travel through space with stellar formations and cosmic phenomena''
       (Fin 60) True
       [mk_track ''camera''
          [mk_keyframe 0 [(''position'', PArr [Num 0, Num 40, Num 80]),
              (''target'', PArr [Num 0, Num 10, Num 0])],
           mk_keyframe 15 [(''position'', PArr [Num 50, Num 60, Num 50]),
              (''target'', PArr [Num 20, Num 5, Num 20])],
           mk_keyframe 30 [(''position'', PArr [Num (-30), Num 80, Num 60]),
              (''target'', PArr [Num (-10), Num 15, Num 10])],
           mk_keyframe 45 [(''position'', PArr [Num 0, Num 100, Num 100]),
              (''target'', PArr [Num 0, Num 20, Num 0])],
           mk_keyframe 60 [(''position'', PArr [Num 0, Num 40, Num 80]),
              (''target'', PArr [Num 0, Num 10, Num 0])]],
        mk_track ''particles''
          [mk_keyframe 0 [(''intensity'', PNum (Num 1.0)), (''count'', PNum (Num 5000))],
           mk_keyframe 20 [(''intensity'', PNum (Num 1.5)), (''count'', PNum (Num 8000))],
           mk_keyframe 40 [(''intensity'', PNum (Num 2.0)), (''count'', PNum (Num 10000))],
           mk_keyframe 60 [(''intensity'', PNum (Num 1.0)), (''count'', PNum (Num 5000))]],
        mk_track ''lighting''
          [mk_keyframe 0 [(''color'', POther ''#4466ff''), (''intensity'', PNum (Num 1.0))],
           mk_keyframe 30 [(''color'', POther ''#6644ff''), (''intensity'', PNum (Num 1.2))],
           mk_keyframe 60 [(''color'', POther ''#4466ff''), (''intensity'', PNum (Num 1.0))]]]"

definition sequence_fire :: AnimationSequence where
  "sequence_fire =
     mk_sequence ''fire'' ''Elemental Fire''
       ''Intense fire effects with heat distortion and ember particles''
       (Fin 45) True
       [mk_track ''camera''
          [mk_keyframe 0 [(''position'', PArr [Num 15, Num 25, Num 45]),
              (''target'', PArr [Num 0, Num 5, Num 0])],
           mk_keyframe 15 [(''position'', PArr [Num 30, Num 20, Num 30]),
              (''target'', PArr [Num 5, Num 8, Num 5])],
           mk_keyframe 30 [(''position'', PArr [Num 0, Num 35, Num 50]),
              (''target'', PArr [Num 0, Num 10, Num 0])],
           mk_keyframe 45 [(''position'', PArr [Num 15, Num 25, Num 45]),
              (''target'', PArr [Num 0, Num 5, Num 0])]],
        mk_track ''fire_intensity''
          [mk_keyframe 0 [(''heat'', PNum (Num 1.0)), (''spread'', PNum (Num 1.0))],
           mk_keyframe 10 [(''heat'', PNum (Num 1.8)), (''spread'', PNum (Num 1.5))],
           mk_keyframe 25 [(''heat'', PNum (Num 2.2)), (''spread'', PNum (Num 2.0))],
           mk_keyframe 35 [(''heat'', PNum (Num 1.5)), (''spread'', PNum (Num 1.2))],
           mk_keyframe 45 [(''heat'', PNum (Num 1.0)), (''spread'', PNum (Num 1.0))]]]"

definition sequence_water :: AnimationSequence where
  "sequence_water =
     mk_sequence ''water'' ''Aquatic Flow''
       ''Fluid dynamics with waves, splashes, and underwater effects''
       (Fin 50) True
       [mk_track ''camera''
          [mk_keyframe 0 [(''position'', PArr [Num (-20), Num 20, Num 60]),
              (''target'', PArr [Num 0, Num 0, Num 0])],
           mk_keyframe 20 [(''position'', PArr [Num 40, Num 15, Num 40]),
              (''target'', PArr [Num 10, Num (-5), Num 10])],
           mk_keyframe 40 [(''position'', PArr [Num (-10), Num 30, Num 80]),
              (''target'', PArr [Num (-5), Num 5, Num (-5)])],
           mk_keyframe 50 [(''position'', PArr [Num (-20), Num 20, Num 60]),
              (''target'', PArr [Num 0, Num 0, Num 0])]],
        mk_track ''water_flow''
          [mk_keyframe 0 [(''speed'', PNum (Num 1.0)), (''turbulence'', PNum (Num 0.5))],
           mk_keyframe 15 [(''speed'', PNum (Num 1.5)), (''turbulence'', PNum (Num 0.8))],
           mk_keyframe 30 [(''speed'', PNum (Num 2.0)), (''turbulence'', PNum (Num 1.2))],
           mk_keyframe 50 [(''speed'', PNum (Num 1.0)), (''turbulence'', PNum (Num 0.5))]]]"

definition sequence_crystal :: AnimationSequence where
  "sequence_crystal =
     mk_sequence ''crystal'' ''Crystal Resonance''
       ''Geometric crystal formations with refractive light effects''
       (Fin 40) True
       [mk_track ''camera''
          [mk_keyframe 0 [(''position'', PArr [Num 30, Num 35, Num 50]),
              (''target'', PArr [Num 0, Num 15, Num 0])],
           mk_keyframe 20 [(''position'', PArr [Num 60, Num 25, Num 30]),
              (''target'', PArr [Num 20, Num 10, Num 10])],
           mk_keyframe 40 [(''position'', PArr [Num 30, Num 35, Num 50]),
              (''target'', PArr [Num 0, Num 15, Num 0])]],
        mk_track ''crystal_growth''
          [mk_keyframe 0 [(''scale'', PNum (Num 0.8)), (''energy'', PNum (Num 1.0))],
           mk_keyframe 10 [(''scale'', PNum (Num 1.2)), (''energy'', PNum (Num 1.5))],
           mk_keyframe 20 [(''scale'', PNum (Num 1.5)), (''energy'', PNum (Num 2.0))],
           mk_keyframe 30 [(''scale'', PNum (Num 1.1)), (''energy'', PNum (Num 1.3))],
           mk_keyframe 40 [(''scale'', PNum (Num 0.8)), (''energy'', PNum (Num 1.0))]]]"

definition sequence_plasma :: AnimationSequence where
  "sequence_plasma =
     mk_sequence ''plasma'' ''Plasma Storm''
       ''High-energy electromagnetic fields and plasma discharge''
       (Fin 35) True
       [mk_track ''camera''
          [mk_keyframe 0 [(''position'', PArr [Num 0, Num 60, Num 100]),
              (''target'', PArr [Num 0, Num 20, Num 0])],
           mk_keyframe 12 [(''position'', PArr [Num 80, Num 40, Num 60]),
              (''target'', PArr [Num 30, Num 25, Num 20])],
           mk_keyframe 25 [(''position'', PArr [Num (-60), Num 80, Num 80]),
              (''target'', PArr [Num (-20), Num 30, Num 20])],
           mk_keyframe 35 [(''position'', PArr [Num 0, Num 60, Num 100]),
              (''target'', PArr [Num 0, Num 20, Num 0])]],
        mk_track ''plasma_energy''
          [mk_keyframe 0 [(''field_strength'', PNum (Num 1.0)), (''frequency'', PNum (Num 8.0))],
           mk_keyframe 8 [(''field_strength'', PNum (Num 2.5)), (''frequency'', PNum (Num 15.0))],
           mk_keyframe 18 [(''field_strength'', PNum (Num 3.0)), (''frequency'', PNum (Num 20.0))],
           mk_keyframe 28 [(''field_strength'', PNum (Num 1.8)), (''frequency'', PNum (Num 12.0))],
           mk_keyframe 35 [(''field_strength'', PNum (Num 1.0)), (''frequency'', PNum (Num 8.0))]]]"

text \<open>The constructor adds the five default sequences to the freshly initialised fields.\<close>

definition AnimationSequencer_new :: AnimationSequencer where
  "AnimationSequencer_new =
     foldl (\<lambda>s sq. addSequence sq s)
       \<lparr>sequences = [], currentSequence = None, startTime = 0, isPlaying = False,
        speed = 1, progress = Fin 0, events = []\<rparr>
       [sequence_cosmic, sequence_fire, sequence_water, sequence_crystal, sequence_plasma]"

text \<open>How often the sequencer has emitted \<open>loop\<close>.\<close>

definition loopEvents :: "AnimationSequencer \<Rightarrow> nat" where
  "loopEvents s = length (filter (\<lambda>e. case e of EvLoop i \<Rightarrow> True | _ \<Rightarrow> False) (events s))"

subsection \<open>Two sequences to run\<close>

text \<open>
  \<open>started sq\<close> is a new sequencer to which the sequence \<open>sq\<close> has been added and
  started with \<open>play(sq.id)\<close> at clock reading 0 (speed 1). \<open>demo_sequence\<close> loops with
  duration 10; \<open>zero_sequence\<close> loops with duration 0.
\<close>

definition started :: "AnimationSequence \<Rightarrow> AnimationSequencer" where
  "started sq = play 0 (Some (id_seq sq)) (addSequence sq AnimationSequencer_new)"

definition demo_sequence :: AnimationSequence where
  "demo_sequence = mk_sequence ''demo'' ''Demo'' [] (Fin 10) True []"

definition zero_sequence :: AnimationSequence where
  "zero_sequence = mk_sequence ''zero'' ''Zero'' [] (Fin 0) True []"

section \<open>Properties of the numbers\<close>

text \<open>Below \<open>2^1023\<close> in magnitude a result does not overflow.\<close>

lemma js_huge_big: "2 ^ 1023 \<le> js_huge"
proof -
  have "(2::real) ^ 970 \<le> 2 ^ 1023" by (rule power_increasing) simp_all
  moreover have "(2::real) ^ 1024 = 2 * 2 ^ 1023" by simp
  ultimately show ?thesis unfolding js_huge_def by linarith
qed

lemma js_fin_id: "\<bar>x\<bar> < 2 ^ 1023 \<Longrightarrow> js_fin x = Fin x"
  using js_huge_big by (auto simp: js_fin_def)

section \<open>Properties of the PerformanceOptimizer\<close>

subsection \<open>The sample buffer\<close>

lemma addFrameTimes_snoc: "addFrameTimes (ds @ [d]) s = addFrameTime d (addFrameTimes ds s)"
  by (simp add: addFrameTimes_def)

lemma drop_window_snoc:
  assumes "0 < m"
  shows "(if length (drop (length L - m) L @ [x]) > m
          then tl (drop (length L - m) L @ [x]) else drop (length L - m) L @ [x])
         = drop (Suc (length L) - m) (L @ [x])"
proof (cases "length L < m")
  case True
  then show ?thesis by simp
next
  case False
  then have eq: "Suc (length L) - m = Suc (length L - m)" by simp
  have ne: "drop (length L - m) L \<noteq> []" using False assms by simp
  have len: "length (drop (length L - m) L) = m" using False by simp
  have "tl (drop (length L - m) L @ [x]) = tl (drop (length L - m) L) @ [x]"
    using ne by simp
  also have "\<dots> = drop (Suc (length L - m)) L @ [x]"
    by (simp add: drop_Suc drop_tl)
  also have "\<dots> = drop (Suc (length L) - m) (L @ [x])"
    using False assms by (simp add: eq)
  finally show ?thesis using len by simp
qed

lemma addFrameTime_frameRates:
  "frameRates (addFrameTime d s) =
     (if length (frameRates s @ [js_div (Fin 1) d]) > maxSamples
      then tl (frameRates s @ [js_div (Fin 1) d]) else frameRates s @ [js_div (Fin 1) d])"
  by (simp add: addFrameTime_def Let_def)

lemma addFrameTimes_window:
  "frameRates (addFrameTimes ds PerformanceOptimizer_new) =
     drop (length ds - maxSamples) (map (js_div (Fin 1)) ds)"
proof (induction ds rule: rev_induct)
  case Nil
  then show ?case by (simp add: addFrameTimes_def PerformanceOptimizer_new_def reset_def)
next
  case (snoc d ds)
  have pos: "0 < maxSamples" by (simp add: maxSamples_def)
  have "frameRates (addFrameTimes (ds @ [d]) PerformanceOptimizer_new) =
        (if length (drop (length (map (js_div (Fin 1)) ds) - maxSamples) (map (js_div (Fin 1)) ds) @ [js_div (Fin 1) d]) > maxSamples
         then tl (drop (length (map (js_div (Fin 1)) ds) - maxSamples) (map (js_div (Fin 1)) ds) @ [js_div (Fin 1) d])
         else drop (length (map (js_div (Fin 1)) ds) - maxSamples) (map (js_div (Fin 1)) ds) @ [js_div (Fin 1) d])"
    unfolding addFrameTimes_snoc addFrameTime_frameRates snoc.IH by simp
  also have "\<dots> = drop (Suc (length (map (js_div (Fin 1)) ds)) - maxSamples) (map (js_div (Fin 1)) ds @ [js_div (Fin 1) d])"
    by (rule drop_window_snoc[OF pos])
  finally show ?case by simp
qed

text \<open>
  Whatever frame deltas are recorded on a new optimizer, the buffer holds the most recent
  60 samples at most (the oldest are the ones dropped), and the average of an empty
  buffer is 60.
\<close>

lemma ring_buffer_window:
  "length (frameRates (addFrameTimes ds PerformanceOptimizer_new)) = min (length ds) 60
   \<and> frameRates (addFrameTimes ds PerformanceOptimizer_new)
       = drop (length ds - 60) (map (js_div (Fin 1)) ds)
   \<and> getAverageFPS PerformanceOptimizer_new = Fin 60
   \<and> getAverageFPS (reset s) = Fin 60"
proof -
  have w: "frameRates (addFrameTimes ds PerformanceOptimizer_new)
           = drop (length ds - 60) (map (js_div (Fin 1)) ds)"
    using addFrameTimes_window[of ds] by (simp add: maxSamples_def)
  have "length (frameRates (addFrameTimes ds PerformanceOptimizer_new)) = min (length ds) 60"
    unfolding w by simp
  moreover have "getAverageFPS PerformanceOptimizer_new = Fin 60" "getAverageFPS (reset s) = Fin 60"
    by (simp_all add: getAverageFPS_def PerformanceOptimizer_new_def reset_def)
  ultimately show ?thesis using w by simp
qed

subsection \<open>The performance level\<close>

text \<open>
  \<open>Math.max(0, Math.min(1, x))\<close> is in [0, 1] for every \<open>x\<close> but \<open>NaN\<close>, which it
  returns as it is.
\<close>

lemma js_clamp_range:
  "js_min (Fin 1) (js_max (Fin 0) x) = JsNaN
   \<or> (js_le (Fin 0) (js_min (Fin 1) (js_max (Fin 0) x))
      \<and> js_le (js_min (Fin 1) (js_max (Fin 0) x)) (Fin 1))"
  by (cases x) (auto simp: js_min_def js_max_def js_lt_def js_le_def)

lemma js_clamp_nan: "js_min (Fin 1) (js_max (Fin 0) x) = JsNaN \<longleftrightarrow> x = JsNaN"
  by (cases x) (auto simp: js_min_def js_max_def js_lt_def)

lemma getPerformanceLevel_range:
  "getPerformanceLevel s = JsNaN
   \<or> (js_le (Fin 0) (getPerformanceLevel s) \<and> js_le (getPerformanceLevel s) (Fin 1))"
  unfolding getPerformanceLevel_def Let_def by (rule js_clamp_range)

text \<open>
  C9. The documentation of \<open>getPerformanceLevel\<close> promises a level between 0 and 1. Two
  frame deltas \<open>0\<close> and \<open>-0\<close> recorded on a new optimizer are stored as the samples
  \<open>Infinity\<close> and \<open>-Infinity\<close>; their sum is \<open>NaN\<close>, so is the average, and the clamp
  passes \<open>NaN\<close> on: the level is \<open>NaN\<close>, which is neither at least 0 nor at most 1.
\<close>

theorem performance_level_nan:
  "getAverageFPS (addFrameTimes [Fin 0, NegZero] PerformanceOptimizer_new) = JsNaN
   \<and> getPerformanceLevel (addFrameTimes [Fin 0, NegZero] PerformanceOptimizer_new) = JsNaN
   \<and> \<not> js_le (Fin 0) (getPerformanceLevel (addFrameTimes [Fin 0, NegZero] PerformanceOptimizer_new))
   \<and> \<not> js_le (getPerformanceLevel (addFrameTimes [Fin 0, NegZero] PerformanceOptimizer_new)) (Fin 1)"
  by (simp add: getPerformanceLevel_def getAverageFPS_def addFrameTimes_def addFrameTime_def
      PerformanceOptimizer_new_def reset_def maxSamples_def js_div_def js_zero_def js_infinite_def
      js_sign_def js_sub_def js_min_def js_max_def js_le_def Let_def)

subsection \<open>The particle count\<close>

lemma js_le_lt_trans: "js_le a b \<Longrightarrow> js_lt b c \<Longrightarrow> js_lt a c"
  by (cases a; cases b; cases c) (auto simp: js_le_def js_lt_def)

lemma floor_scaled_le:
  assumes "0 \<le> r" "a \<le> b"
  shows "(of_int \<lfloor>r * a\<rfloor> :: real) \<le> of_int \<lfloor>r * b\<rfloor>"
proof -
  have "r * a \<le> r * b" using assms by (simp add: mult_left_mono)
  then show ?thesis by (simp add: floor_mono)
qed

lemma floor_scaled_le_self:
  assumes "0 \<le> r" "a \<le> 1"
  shows "(of_int \<lfloor>r * a\<rfloor> :: real) \<le> r"
proof -
  have "of_int \<lfloor>r * a\<rfloor> \<le> r * a" by (rule of_int_floor_le)
  also have "\<dots> \<le> r * 1" using assms by (intro mult_left_mono) simp_all
  finally show ?thesis by simp
qed

lemma adjustParticleCount_le:
  "0 \<le> r \<Longrightarrow> adjustParticleCount s r \<le> r"
  using floor_scaled_le_self[of r "0.25"] floor_scaled_le_self[of r "0.5"]
    floor_scaled_le_self[of r "0.75"]
  by (simp add: adjustParticleCount_def Let_def)

lemma adjustParticleCount_mono:
  assumes "0 \<le> r" "js_le (getPerformanceLevel s) (getPerformanceLevel s')"
  shows "adjustParticleCount s r \<le> adjustParticleCount s' r"
  using assms(1) js_le_lt_trans[OF assms(2)]
    floor_scaled_le[of r "0.25" "0.5"] floor_scaled_le[of r "0.25" "0.75"]
    floor_scaled_le[of r "0.5" "0.75"]
    floor_scaled_le_self[of r "0.25"] floor_scaled_le_self[of r "0.5"]
    floor_scaled_le_self[of r "0.75"]
  by (auto simp: adjustParticleCount_def Let_def)

lemma adjustParticleCount_int: "r \<in> \<int> \<Longrightarrow> adjustParticleCount s r \<in> \<int>"
  by (simp add: adjustParticleCount_def Let_def)

text \<open>
  C5 (as amended). For every requested number \<open>r\<close>, \<open>adjustParticleCount\<close> returns the
  floor of 25% of \<open>r\<close> when the performance level is below 0.3, the floor of 50% when it
  is below 0.6, the floor of 75% when it is below 0.8, and otherwise \<open>r\<close> itself, which
  is not floored. The result is an integer when \<open>r\<close> is one. For \<open>r\<close> at least 0 the
  result is at most \<open>r\<close> and does not decrease when the performance level increases.
\<close>

theorem adjustParticleCount_tiers:
  "(js_lt (getPerformanceLevel s) (Fin 0.3) \<longrightarrow>
      adjustParticleCount s r = of_int \<lfloor>r * 0.25\<rfloor>)
   \<and> (\<not> js_lt (getPerformanceLevel s) (Fin 0.3) \<and> js_lt (getPerformanceLevel s) (Fin 0.6) \<longrightarrow>
        adjustParticleCount s r = of_int \<lfloor>r * 0.5\<rfloor>)
   \<and> (\<not> js_lt (getPerformanceLevel s) (Fin 0.6) \<and> js_lt (getPerformanceLevel s) (Fin 0.8) \<longrightarrow>
        adjustParticleCount s r = of_int \<lfloor>r * 0.75\<rfloor>)
   \<and> (\<not> js_lt (getPerformanceLevel s) (Fin 0.8) \<longrightarrow> adjustParticleCount s r = r)
   \<and> (r \<in> \<int> \<longrightarrow> adjustParticleCount s r \<in> \<int>)
   \<and> (0 \<le> r \<longrightarrow> adjustParticleCount s r \<le> r)
   \<and> (0 \<le> r \<and> js_le (getPerformanceLevel s) (getPerformanceLevel s') \<longrightarrow>
        adjustParticleCount s r \<le> adjustParticleCount s' r)"
proof -
  have lt: "js_lt a (Fin 0.3) \<Longrightarrow> js_lt a (Fin 0.6)" "js_lt a (Fin 0.6) \<Longrightarrow> js_lt a (Fin 0.8)" for a
    by (cases a; auto simp: js_lt_def)+
  have tiers: "(js_lt (getPerformanceLevel s) (Fin 0.3) \<longrightarrow>
      adjustParticleCount s r = of_int \<lfloor>r * 0.25\<rfloor>)
   \<and> (\<not> js_lt (getPerformanceLevel s) (Fin 0.3) \<and> js_lt (getPerformanceLevel s) (Fin 0.6) \<longrightarrow>
        adjustParticleCount s r = of_int \<lfloor>r * 0.5\<rfloor>)
   \<and> (\<not> js_lt (getPerformanceLevel s) (Fin 0.6) \<and> js_lt (getPerformanceLevel s) (Fin 0.8) \<longrightarrow>
        adjustParticleCount s r = of_int \<lfloor>r * 0.75\<rfloor>)
   \<and> (\<not> js_lt (getPerformanceLevel s) (Fin 0.8) \<longrightarrow> adjustParticleCount s r = r)"
    using lt[of "getPerformanceLevel s"] by (auto simp: adjustParticleCount_def Let_def)
  show ?thesis
    using tiers adjustParticleCount_int[of r s] adjustParticleCount_le[of r s]
      adjustParticleCount_mono[of r s s']
    by blast
qed

text \<open>The level of a buffer that holds one sample of 20, 30, 45 or 60 frames per second.\<close>

lemma levels:
  "getPerformanceLevel \<lparr>frameRates = [Fin 20]\<rparr> = Fin 0"
  "getPerformanceLevel \<lparr>frameRates = [Fin 30]\<rparr> = Fin 0"
  "getPerformanceLevel \<lparr>frameRates = [Fin 45]\<rparr> = Fin (1 / 2)"
  "getPerformanceLevel \<lparr>frameRates = [Fin 60]\<rparr> = Fin 1"
  by (simp_all add: getPerformanceLevel_def getAverageFPS_def js_div_def js_zero_def
      js_infinite_def js_sign_def js_sub_def js_min_def js_max_def js_lt_def Let_def minFPS_def
      targetFPS_def js_fin_id)

text \<open>The average frame rates 20, 30, 45, 60 give 2500, 2500, 5000, 10000 of 10000 particles.\<close>

theorem adjustParticleCount_tiers_witness:
  "js_lt (getPerformanceLevel \<lparr>frameRates = [Fin 20]\<rparr>) (Fin 0.3)
   \<and> adjustParticleCount \<lparr>frameRates = [Fin 20]\<rparr> 10000 = 2500
   \<and> js_le (getPerformanceLevel \<lparr>frameRates = [Fin 20]\<rparr>)
            (getPerformanceLevel \<lparr>frameRates = [Fin 45]\<rparr>)
   \<and> adjustParticleCount \<lparr>frameRates = [Fin 20]\<rparr> 10000
       \<le> adjustParticleCount \<lparr>frameRates = [Fin 45]\<rparr> 10000
   \<and> map (\<lambda>f. adjustParticleCount \<lparr>frameRates = [Fin f]\<rparr> 10000) [20, 30, 45, 60]
       = [2500, 2500, 5000, 10000]"
  using adjustParticleCount_tiers[of "\<lparr>frameRates = [Fin 20]\<rparr>" 10000 "\<lparr>frameRates = [Fin 45]\<rparr>"]
  by (simp add: adjustParticleCount_def levels js_lt_def js_le_def)

text \<open>
  At the best level a request of 7.5 particles is answered with 7.5, which is not floored
  to an integer. A request of -3 is answered with -1 at the lowest level and with -3 at
  the best one: the answer exceeds the request, and decreases as the level increases.
\<close>

theorem adjustParticleCount_floor_counterexample:
  "getPerformanceLevel PerformanceOptimizer_new = Fin 1
   \<and> adjustParticleCount PerformanceOptimizer_new 7.5 = 7.5
   \<and> adjustParticleCount PerformanceOptimizer_new 7.5
       \<noteq> of_int \<lfloor>adjustParticleCount PerformanceOptimizer_new 7.5\<rfloor>
   \<and> getPerformanceLevel \<lparr>frameRates = [Fin 20]\<rparr> = Fin 0
   \<and> adjustParticleCount \<lparr>frameRates = [Fin 20]\<rparr> (- 3) = - 1
   \<and> \<not> adjustParticleCount \<lparr>frameRates = [Fin 20]\<rparr> (- 3) \<le> - 3
   \<and> adjustParticleCount \<lparr>frameRates = [Fin 60]\<rparr> (- 3) = - 3
   \<and> \<not> adjustParticleCount \<lparr>frameRates = [Fin 20]\<rparr> (- 3)
         \<le> adjustParticleCount \<lparr>frameRates = [Fin 60]\<rparr> (- 3)"
proof -
  have l: "getPerformanceLevel PerformanceOptimizer_new = Fin 1"
    by (simp add: getPerformanceLevel_def getAverageFPS_def
      PerformanceOptimizer_new_def reset_def js_div_def js_zero_def js_infinite_def
      js_sign_def js_sub_def js_min_def js_max_def js_lt_def Let_def minFPS_def targetFPS_def js_fin_id)
  have f: "\<lfloor>7.5 :: real\<rfloor> = 7" by linarith
  have g: "\<lfloor>- 3 * 0.25 :: real\<rfloor> = - 1" by (rule floor_unique) simp_all
  show ?thesis
    using g by (simp add: adjustParticleCount_def l levels js_lt_def f)
qed

section \<open>Properties of keyframe interpolation\<close>

lemma findSurrounding_all_later:
  "\<forall>k\<in>set ks. t < time k \<Longrightarrow> findSurrounding t ks = None"
  by (induction t ks rule: findSurrounding.induct) auto

lemma findSurrounding_all_earlier:
  "\<forall>k\<in>set ks. time k < t \<Longrightarrow> findSurrounding t ks = None"
  by (induction t ks rule: findSurrounding.induct) auto

lemma sorted_time_ge_hd:
  "sorted (map time ks) \<Longrightarrow> k \<in> set ks \<Longrightarrow> time (hd ks) \<le> time k"
  by (cases ks) auto

lemma sorted_time_le_last:
  "sorted (map time ks) \<Longrightarrow> k \<in> set ks \<Longrightarrow> time k \<le> time (last ks)"
  by (induction ks) auto

lemma findSurrounding_before_first:
  assumes "sorted (map time ks)" "t < time (hd ks)"
  shows "findSurrounding t ks = None"
proof (rule findSurrounding_all_later, rule ballI)
  fix k assume "k \<in> set ks"
  from sorted_time_ge_hd[OF assms(1) this] assms(2) show "t < time k" by simp
qed

lemma findSurrounding_after_last:
  assumes "sorted (map time ks)" "time (last ks) < t"
  shows "findSurrounding t ks = None"
proof (rule findSurrounding_all_earlier, rule ballI)
  fix k assume "k \<in> set ks"
  from sorted_time_le_last[OF assms(1) this] assms(2) show "time k < t" by simp
qed

lemma findSurrounding_encloses:
  "findSurrounding t ks = Some (a, b) \<Longrightarrow> time a \<le> t \<and> t \<le> time b"
  by (induction t ks rule: findSurrounding.induct) (auto split: if_splits)

lemma findSurrounding_at_first:
  "sorted (map time ks) \<Longrightarrow> ks \<noteq> [] \<Longrightarrow> findSurrounding (time (hd ks)) ks = Some (a, b) \<Longrightarrow> a = hd ks"
  by (induction "time (hd ks)" ks rule: findSurrounding.induct) (auto split: if_splits)

lemma findSurrounding_at_last:
  "sorted (map time ks) \<Longrightarrow> 2 \<le> length ks \<Longrightarrow> t = time (last ks) \<Longrightarrow>
   \<exists>a b. findSurrounding t ks = Some (a, b) \<and>
     (if time a = t then find (\<lambda>k. time k = t) ks = Some a
      else time b = t \<and> find (\<lambda>k. time k = t) ks = Some b)"
proof (induction t ks rule: findSurrounding.induct)
  case (1 t a b rest)
  have ab: "time a \<le> time b" using 1(2) by simp
  have bt: "time b \<le> t" using 1(2,4) by (cases rest) auto
  show ?case
  proof (cases "t \<le> time b")
    case True
    then show ?thesis using ab bt by auto
  next
    case False
    then have ne: "rest \<noteq> []" using 1(4) by auto
    have "\<not> (t \<ge> time a \<and> t \<le> time b)" using False by simp
    moreover have "sorted (map time (b # rest))" using 1(2) by simp
    moreover have "2 \<le> length (b # rest)" using ne by (cases rest) auto
    moreover have "t = time (last (b # rest))" using 1(4) by simp
    ultimately obtain a' b' where
      h: "findSurrounding t (b # rest) = Some (a', b')"
         "(if time a' = t then find (\<lambda>k. time k = t) (b # rest) = Some a'
           else time b' = t \<and> find (\<lambda>k. time k = t) (b # rest) = Some b')"
      using 1(1) by blast
    have "time a \<noteq> t" using ab False by auto
    then have "find (\<lambda>k. time k = t) (a # b # rest) = find (\<lambda>k. time k = t) (b # rest)"
      by simp
    then show ?thesis using h False by auto
  qed
qed auto

lemma find_last_strict:
  "sorted_wrt (<) (map time ks) \<Longrightarrow> ks \<noteq> [] \<Longrightarrow>
   find (\<lambda>k. time k = time (last ks)) ks = Some (last ks)"
  by (induction ks) (auto)

lemma interpolateTrack_at_or_before_first:
  assumes ne: "keyframes track \<noteq> []" and srt: "sorted (map time (keyframes track))"
    and t: "t \<le> time (hd (keyframes track))"
  shows "interpolateTrack track t = properties (hd (keyframes track))"
proof (cases "findSurrounding t (keyframes track)")
  case None
  then show ?thesis using ne t by (simp add: interpolateTrack_def)
next
  case (Some pr)
  obtain a b where pr: "pr = (a, b)" by (cases pr)
  have "time a \<le> t" using findSurrounding_encloses Some pr by blast
  moreover have "\<not> t < time (hd (keyframes track))"
    using findSurrounding_before_first[OF srt] Some by auto
  ultimately have eq: "t = time (hd (keyframes track))" using t by simp
  then have "a = hd (keyframes track)"
    using findSurrounding_at_first[OF srt ne] Some pr by simp
  then show ?thesis using ne Some pr eq by (simp add: interpolateTrack_def)
qed

lemma interpolateTrack_after_last:
  assumes ne: "keyframes track \<noteq> []" and srt: "sorted (map time (keyframes track))"
    and t: "time (last (keyframes track)) < t"
  shows "interpolateTrack track t = properties (last (keyframes track))"
proof -
  have none: "findSurrounding t (keyframes track) = None"
    by (rule findSurrounding_after_last[OF srt t])
  have "time (hd (keyframes track)) \<le> time (last (keyframes track))"
    using sorted_time_le_last[OF srt] ne by simp
  then have "\<not> t \<le> time (hd (keyframes track))" using t by simp
  then show ?thesis using ne none t by (simp add: interpolateTrack_def)
qed

lemma interpolateTrack_at_last:
  assumes ne: "keyframes track \<noteq> []" and srt: "sorted (map time (keyframes track))"
    and t: "t = time (last (keyframes track))"
  shows "\<exists>k. find (\<lambda>k. time k = t) (keyframes track) = Some k
             \<and> interpolateTrack track t = properties k"
proof (cases "2 \<le> length (keyframes track)")
  case False
  then obtain k where ks: "keyframes track = [k]"
    using ne by (cases "keyframes track") (auto simp: Suc_le_eq)
  then show ?thesis using t by (simp add: interpolateTrack_def)
next
  case True
  from findSurrounding_at_last[OF srt True t] obtain a b where
    f: "findSurrounding t (keyframes track) = Some (a, b)" and
    c: "if time a = t then find (\<lambda>k. time k = t) (keyframes track) = Some a
        else time b = t \<and> find (\<lambda>k. time k = t) (keyframes track) = Some b"
    by blast
  have enc: "time a \<le> t" using findSurrounding_encloses[OF f] by simp
  show ?thesis
  proof (cases "time a = t")
    case True
    then show ?thesis using c f ne by (auto simp: interpolateTrack_def)
  next
    case False
    then have "\<not> t \<le> time a" using enc by simp
    then show ?thesis using c f ne False by (auto simp: interpolateTrack_def)
  qed
qed

text \<open>
  C6 (as amended). For a track whose keyframe list is not empty and sorted by time
  (equal times allowed): a query at or before the first keyframe's time returns the first
  keyframe's property bag; a query after the last keyframe's time returns the last
  keyframe's bag; a query exactly at the last keyframe's time returns the bag of the
  first keyframe that has this time. So when the times are strictly ascending, every
  query at or after the last keyframe's time returns the last keyframe's bag.
\<close>

theorem interpolateTrack_boundary:
  assumes "keyframes track \<noteq> []" and "sorted (map time (keyframes track))"
  shows "(t \<le> time (hd (keyframes track)) \<longrightarrow>
            interpolateTrack track t = properties (hd (keyframes track)))
       \<and> (time (last (keyframes track)) < t \<longrightarrow>
            interpolateTrack track t = properties (last (keyframes track)))
       \<and> (t = time (last (keyframes track)) \<longrightarrow>
            (\<exists>k. find (\<lambda>k. time k = t) (keyframes track) = Some k
                 \<and> interpolateTrack track t = properties k))
       \<and> (sorted_wrt (<) (map time (keyframes track)) \<and> time (last (keyframes track)) \<le> t \<longrightarrow>
            interpolateTrack track t = properties (last (keyframes track)))"
proof -
  have strict: "interpolateTrack track t = properties (last (keyframes track))"
    if s: "sorted_wrt (<) (map time (keyframes track))" and le: "time (last (keyframes track)) \<le> t"
  proof (cases "t = time (last (keyframes track))")
    case True
    from interpolateTrack_at_last[OF assms True] find_last_strict[OF s assms(1)] True
    show ?thesis by auto
  next
    case False
    then show ?thesis using interpolateTrack_after_last[OF assms] le by simp
  qed
  show ?thesis
    using interpolateTrack_at_or_before_first[OF assms] interpolateTrack_after_last[OF assms]
      interpolateTrack_at_last[OF assms] strict
    by blast
qed

text \<open>
  Two keyframes at times 0 and 10: the query at 10 returns the second bag, the query at
  5 interpolates.
\<close>

theorem interpolateTrack_boundary_witness:
  "keyframes (mk_track ''x'' [mk_keyframe 0 [(''v'', PNum (Num 1))],
                              mk_keyframe 10 [(''v'', PNum (Num 5))]]) \<noteq> []
   \<and> sorted_wrt (<) (map time (keyframes (mk_track ''x'' [mk_keyframe 0 [(''v'', PNum (Num 1))],
                              mk_keyframe 10 [(''v'', PNum (Num 5))]])))
   \<and> time (last (keyframes (mk_track ''x'' [mk_keyframe 0 [(''v'', PNum (Num 1))],
                              mk_keyframe 10 [(''v'', PNum (Num 5))]]))) \<le> 10
   \<and> interpolateTrack (mk_track ''x'' [mk_keyframe 0 [(''v'', PNum (Num 1))],
                              mk_keyframe 10 [(''v'', PNum (Num 5))]]) 10 = [(''v'', PNum (Num 5))]
   \<and> interpolateTrack (mk_track ''x'' [mk_keyframe 0 [(''v'', PNum (Num 1))],
                              mk_keyframe 10 [(''v'', PNum (Num 5))]]) 5 = [(''v'', PNum (Num 3))]"
  using interpolateTrack_boundary[of "mk_track ''x'' [mk_keyframe 0 [(''v'', PNum (Num 1))],
                              mk_keyframe 10 [(''v'', PNum (Num 5))]]" 10]
  by (simp add: mk_track_def mk_keyframe_def interpolateTrack_def getProperty_def)

text \<open>
  Keyframes at times 0, 10, 10 are sorted by time. The scan stops at the pair (0, 10),
  so the query at 10 returns the bag of the second keyframe, not of the last one.
\<close>

theorem interpolateTrack_last_counterexample:
  "keyframes (mk_track ''x'' [mk_keyframe 0 [(''v'', PNum (Num 0))],
                              mk_keyframe 10 [(''v'', PNum (Num 1))],
                              mk_keyframe 10 [(''v'', PNum (Num 2))]]) \<noteq> []
   \<and> sorted (map time (keyframes (mk_track ''x'' [mk_keyframe 0 [(''v'', PNum (Num 0))],
                              mk_keyframe 10 [(''v'', PNum (Num 1))],
                              mk_keyframe 10 [(''v'', PNum (Num 2))]])))
   \<and> time (last (keyframes (mk_track ''x'' [mk_keyframe 0 [(''v'', PNum (Num 0))],
                              mk_keyframe 10 [(''v'', PNum (Num 1))],
                              mk_keyframe 10 [(''v'', PNum (Num 2))]]))) \<le> 10
   \<and> interpolateTrack (mk_track ''x'' [mk_keyframe 0 [(''v'', PNum (Num 0))],
                              mk_keyframe 10 [(''v'', PNum (Num 1))],
                              mk_keyframe 10 [(''v'', PNum (Num 2))]]) 10 = [(''v'', PNum (Num 1))]
   \<and> properties (last (keyframes (mk_track ''x'' [mk_keyframe 0 [(''v'', PNum (Num 0))],
                              mk_keyframe 10 [(''v'', PNum (Num 1))],
                              mk_keyframe 10 [(''v'', PNum (Num 2))]]))) = [(''v'', PNum (Num 2))]
   \<and> interpolateTrack (mk_track ''x'' [mk_keyframe 0 [(''v'', PNum (Num 0))],
                              mk_keyframe 10 [(''v'', PNum (Num 1))],
                              mk_keyframe 10 [(''v'', PNum (Num 2))]]) 10
       \<noteq> properties (last (keyframes (mk_track ''x'' [mk_keyframe 0 [(''v'', PNum (Num 0))],
                              mk_keyframe 10 [(''v'', PNum (Num 1))],
                              mk_keyframe 10 [(''v'', PNum (Num 2))]])))"
  by (simp add: mk_track_def mk_keyframe_def interpolateTrack_def)

section \<open>Properties of the AnimationSequencer\<close>

lemma loopEvents_append:
  "events s' = events s @ es \<Longrightarrow>
   loopEvents s' =
     loopEvents s + length (filter (\<lambda>e. case e of EvLoop i \<Rightarrow> True | _ \<Rightarrow> False) es)"
  by (simp add: loopEvents_def)

lemma updateTracks_fields:
  "progress (updateTracks sq s) = progress s"
  "startTime (updateTracks sq s) = startTime s"
  "isPlaying (updateTracks sq s) = isPlaying s"
  "speed (updateTracks sq s) = speed s"
  "currentSequence (updateTracks sq s) = currentSequence s"
  "loopEvents (updateTracks sq s) = loopEvents s"
  by (simp_all add: updateTracks_def Let_def loopEvents_def)

lemma update_wraps:
  assumes "currentSequence s = Some sq" "isPlaying s" "loop sq"
    and "js_ge (js_div (elapsed now s) (duration sq)) (Fin 1)"
  shows "update now s =
     updateTracks sq
       (s\<lparr>startTime := now, progress := Fin 0, events := events s @ [EvLoop (id_seq sq)]\<rparr>)"
  using assms by (simp add: update_def Let_def)

lemma update_advances:
  assumes "currentSequence s = Some sq" "isPlaying s"
    and "\<not> js_ge (js_div (elapsed now s) (duration sq)) (Fin 1)"
  shows "update now s = updateTracks sq (s\<lparr>progress := js_div (elapsed now s) (duration sq)\<rparr>)"
  using assms by (simp add: update_def Let_def)

lemma update_idle:
  assumes "\<not> isPlaying s"
  shows "update now s = s"
  using assms by (simp add: update_def split: option.splits)

text \<open>A quotient that is at least 1 has a divisor that is finite or a zero.\<close>

lemma wrap_time_zero:
  assumes "js_ge (js_div e d) (Fin 1)"
  shows "js_mul (Fin 0) d = Fin 0 \<or> js_mul (Fin 0) d = NegZero"
  using assms
  by (cases d; cases e)
     (auto simp: js_ge_def js_le_def js_div_def js_mul_def js_zero_def js_infinite_def js_sign_def
        split: if_splits)

lemma interpolateTrackAt_zero:
  "t = Fin 0 \<or> t = NegZero \<Longrightarrow> interpolateTrackAt track t = interpolateTrack track 0"
  by (auto simp: interpolateTrackAt_def)

subsection \<open>Starting, pausing, playing\<close>

lemma addSequence_fields:
  "map_of (sequences (addSequence sq s)) (id_seq sq) = Some sq"
  "events (addSequence sq s) = events s @ [SequenceAdded (id_seq sq)]"
  "currentSequence (addSequence sq s) = currentSequence s"
  "startTime (addSequence sq s) = startTime s"
  "isPlaying (addSequence sq s) = isPlaying s"
  "speed (addSequence sq s) = speed s"
  "progress (addSequence sq s) = progress s"
  by (simp_all add: addSequence_def update_conv')

lemma new_fields:
  "speed AnimationSequencer_new = 1"
  "loopEvents AnimationSequencer_new = 0"
  "isPlaying AnimationSequencer_new = False"
  by (simp_all add: AnimationSequencer_new_def addSequence_fields loopEvents_def)

lemma play_known:
  assumes "map_of (sequences s) i = Some sq" "i \<noteq> []"
  shows "play now (Some i) s =
     s\<lparr>currentSequence := Some sq, isPlaying := True, startTime := now,
       events := events s @ (if onStart sq then [CallOnStart] else []) @ [EvPlay (id_seq sq)]\<rparr>"
  using assms by (simp add: play_def)

lemma play_resume:
  assumes "currentSequence s = Some sq"
  shows "play now None s =
     s\<lparr>isPlaying := True, startTime := now,
       events := events s @ (if onStart sq then [CallOnStart] else []) @ [EvPlay (id_seq sq)]\<rparr>"
  using assms by (simp add: play_def)

lemma pause_fields:
  "isPlaying (pause s) = False" "progress (pause s) = progress s"
  "startTime (pause s) = startTime s" "currentSequence (pause s) = currentSequence s"
  "speed (pause s) = speed s" "sequences (pause s) = sequences s"
  by (simp_all add: pause_def)

lemma started_fields:
  assumes "id_seq sq \<noteq> []"
  shows "currentSequence (started sq) = Some sq" "isPlaying (started sq)"
    "startTime (started sq) = 0" "speed (started sq) = 1" "loopEvents (started sq) = 0"
proof -
  have "started sq = (addSequence sq AnimationSequencer_new)
     \<lparr>currentSequence := Some sq, isPlaying := True, startTime := 0,
      events := events (addSequence sq AnimationSequencer_new)
                @ (if onStart sq then [CallOnStart] else []) @ [EvPlay (id_seq sq)]\<rparr>"
    unfolding started_def by (rule play_known[OF addSequence_fields(1) assms])
  then show "currentSequence (started sq) = Some sq" "isPlaying (started sq)"
    "startTime (started sq) = 0" "speed (started sq) = 1" "loopEvents (started sq) = 0"
    using new_fields by (simp_all add: addSequence_fields loopEvents_def)
qed

text \<open>At speed 1 the elapsed time is the clock difference in seconds.\<close>

lemma elapsed_speed_1:
  assumes "speed s = 1" "\<bar>now - startTime s\<bar> < 2 ^ 1000"
  shows "elapsed now s = Fin ((now - startTime s) / 1000)"
proof -
  have b: "\<bar>now - startTime s\<bar> < 2 ^ 1023" "\<bar>(now - startTime s) / 1000\<bar> < 2 ^ 1023"
  proof -
    have "(2::real) ^ 1000 \<le> 2 ^ 1023" by (rule power_increasing) simp_all
    then show "\<bar>now - startTime s\<bar> < 2 ^ 1023" using assms(2) by linarith
    moreover have "\<bar>(now - startTime s) / 1000\<bar> \<le> \<bar>now - startTime s\<bar>" by simp
    ultimately show "\<bar>(now - startTime s) / 1000\<bar> < 2 ^ 1023" by linarith
  qed
  have sub: "js_sub (Fin now) (Fin (startTime s)) = Fin (now - startTime s)"
    using js_fin_id[OF b(1)] by (cases "startTime s = 0") (simp_all add: js_sub_def)
  show ?thesis
    using js_fin_id[OF b(2)] assms(1)
    by (simp add: elapsed_def sub js_mul_def js_zero_def js_infinite_def js_sign_def)
qed

subsection \<open>The two sequences\<close>

lemma div_by_10: "\<bar>e\<bar> < 2 ^ 1000 \<Longrightarrow> js_div (Fin e) (Fin 10) = Fin (e / 10)"
proof -
  assume a: "\<bar>e\<bar> < 2 ^ 1000"
  have "(2::real) ^ 1000 \<le> 2 ^ 1023" by (rule power_increasing) simp_all
  moreover have "\<bar>e / 10\<bar> \<le> \<bar>e\<bar>" by simp
  ultimately have "\<bar>e / 10\<bar> < 2 ^ 1023" using a by linarith
  from js_fin_id[OF this] show ?thesis
    by (simp add: js_div_def js_zero_def js_infinite_def js_sign_def)
qed

lemma demo_sequence_fields:
  "id_seq demo_sequence = ''demo''" "id_seq demo_sequence \<noteq> []" "loop demo_sequence"
  "duration demo_sequence = Fin 10"
  by (simp_all add: demo_sequence_def mk_sequence_def)

lemma zero_sequence_fields:
  "id_seq zero_sequence = ''zero''" "id_seq zero_sequence \<noteq> []" "loop zero_sequence"
  "duration zero_sequence = Fin 0"
  by (simp_all add: zero_sequence_def mk_sequence_def)

lemma demo_progress:
  assumes "currentSequence s = Some demo_sequence" "speed s = 1" "\<bar>now - startTime s\<bar> < 2 ^ 1000"
  shows "js_div (elapsed now s) (duration demo_sequence) = Fin ((now - startTime s) / 10000)"
proof -
  have "\<bar>(now - startTime s) / 1000\<bar> \<le> \<bar>now - startTime s\<bar>" by simp
  then have "\<bar>(now - startTime s) / 1000\<bar> < 2 ^ 1000" using assms(3) by linarith
  from div_by_10[OF this] show ?thesis
    by (simp add: elapsed_speed_1[OF assms(2,3)] demo_sequence_fields)
qed

lemma demo_wraps:
  assumes "currentSequence s = Some demo_sequence" "isPlaying s" "speed s = 1"
    "\<bar>now - startTime s\<bar> < 2 ^ 1000" "1 \<le> (now - startTime s) / 10000"
  shows "currentSequence (update now s) = Some demo_sequence" "isPlaying (update now s)"
    "speed (update now s) = 1" "startTime (update now s) = now" "progress (update now s) = Fin 0"
    "loopEvents (update now s) = Suc (loopEvents s)"
proof -
  have ge: "js_ge (js_div (elapsed now s) (duration demo_sequence)) (Fin 1)"
    using assms(5) by (simp add: demo_progress[OF assms(1,3,4)] js_ge_def js_le_def)
  note w = update_wraps[OF assms(1,2) demo_sequence_fields(3) ge]
  show "currentSequence (update now s) = Some demo_sequence" "isPlaying (update now s)"
    "speed (update now s) = 1" "startTime (update now s) = now" "progress (update now s) = Fin 0"
    "loopEvents (update now s) = Suc (loopEvents s)"
    unfolding w using assms(1,2,3)
    by (simp_all add: updateTracks_fields
        loopEvents_append[of _ s "[EvLoop (id_seq demo_sequence)]"])
qed

lemma demo_advances:
  assumes "currentSequence s = Some demo_sequence" "isPlaying s" "speed s = 1"
    "\<bar>now - startTime s\<bar> < 2 ^ 1000" "(now - startTime s) / 10000 < 1"
  shows "progress (update now s) = Fin ((now - startTime s) / 10000)"
    "loopEvents (update now s) = loopEvents s" "isPlaying (update now s)"
    "currentSequence (update now s) = Some demo_sequence"
proof -
  have nge: "\<not> js_ge (js_div (elapsed now s) (duration demo_sequence)) (Fin 1)"
    using assms(5) by (simp add: demo_progress[OF assms(1,3,4)] js_ge_def js_le_def)
  note a = update_advances[OF assms(1,2) nge]
  have l: "loopEvents (s\<lparr>progress := p\<rparr>) = loopEvents s" for p
    by (simp add: loopEvents_def)
  show "progress (update now s) = Fin ((now - startTime s) / 10000)"
    "loopEvents (update now s) = loopEvents s" "isPlaying (update now s)"
    "currentSequence (update now s) = Some demo_sequence"
    unfolding a using assms(1,2)
    by (simp_all add: updateTracks_fields demo_progress[OF assms(1,3,4)] l)
qed

lemmas demo_started = started_fields[OF demo_sequence_fields(2)]

lemmas zero_started = started_fields[OF zero_sequence_fields(2)]

lemma demo_single_tick:
  "js_div (elapsed 25000 (started demo_sequence)) (duration demo_sequence) = Fin (5 / 2)"
  "progress (update 25000 (started demo_sequence)) = Fin 0"
  "startTime (update 25000 (started demo_sequence)) = 25000"
  "loopEvents (update 25000 (started demo_sequence)) = 1"
proof -
  have b: "\<bar>25000 - startTime (started demo_sequence)\<bar> < 2 ^ 1000"
    by (simp add: demo_started)
  show "js_div (elapsed 25000 (started demo_sequence)) (duration demo_sequence) = Fin (5 / 2)"
    unfolding demo_progress[OF demo_started(1,4) b] by (simp add: demo_started)
  have c: "1 \<le> (25000 - startTime (started demo_sequence)) / 10000"
    by (simp add: demo_started)
  show "progress (update 25000 (started demo_sequence)) = Fin 0"
    "startTime (update 25000 (started demo_sequence)) = 25000"
    "loopEvents (update 25000 (started demo_sequence)) = 1"
    using demo_wraps[OF demo_started(1,2,4) b c] by (simp_all add: demo_started)
qed

lemma demo_three_ticks:
  "progress (update 25000 (update 20000 (update 10000 (started demo_sequence)))) = Fin (1 / 2)"
  "loopEvents (update 25000 (update 20000 (update 10000 (started demo_sequence)))) = 2"
proof -
  let ?s1 = "update 10000 (started demo_sequence)"
  let ?s2 = "update 20000 ?s1"
  have s1: "currentSequence ?s1 = Some demo_sequence" "isPlaying ?s1" "speed ?s1 = 1"
    "startTime ?s1 = 10000" "loopEvents ?s1 = 1"
    using demo_wraps[of "started demo_sequence" 10000] by (simp_all add: demo_started)
  have s2: "currentSequence ?s2 = Some demo_sequence" "isPlaying ?s2" "speed ?s2 = 1"
    "startTime ?s2 = 20000" "loopEvents ?s2 = 2"
    using demo_wraps[of ?s1 20000] by (simp_all add: s1)
  show "progress (update 25000 ?s2) = Fin (1 / 2)" "loopEvents (update 25000 ?s2) = 2"
    using demo_advances[of ?s2 25000] by (simp_all add: s2)
qed

lemma zero_single_tick:
  "js_div (elapsed 25000 (started zero_sequence)) (duration zero_sequence) = PosInf"
  "js_ge (js_div (elapsed 25000 (started zero_sequence)) (duration zero_sequence)) (Fin 1)"
proof -
  have e: "elapsed 25000 (started zero_sequence) = Fin 25"
    using elapsed_speed_1[of "started zero_sequence" 25000] by (simp add: zero_started)
  show "js_div (elapsed 25000 (started zero_sequence)) (duration zero_sequence) = PosInf"
    by (simp add: e zero_sequence_fields js_div_def js_zero_def js_infinite_def js_sign_def)
  then show "js_ge (js_div (elapsed 25000 (started zero_sequence)) (duration zero_sequence)) (Fin 1)"
    by (simp add: js_ge_def js_le_def)
qed

subsection \<open>Looping\<close>

text \<open>
  C1 (as amended). When \<open>update\<close> is called on a playing, looping sequence and the
  computed progress is at least 1, the start time becomes the current clock reading and
  the progress becomes 0: what the progress exceeded 1 by is dropped, not kept modulo 1.
  That call emits \<open>loop\<close> exactly once, then resolves the tracks at time 0 and emits
  \<open>update\<close> with progress 0.
\<close>

theorem update_loop_restarts:
  assumes "currentSequence s = Some sq" and "isPlaying s" and "loop sq"
    and "js_ge (js_div (elapsed now s) (duration sq)) (Fin 1)"
  shows "progress (update now s) = Fin 0
       \<and> startTime (update now s) = now
       \<and> isPlaying (update now s)
       \<and> loopEvents (update now s) = loopEvents s + 1
       \<and> events (update now s) = events s @ [EvLoop (id_seq sq)]
            @ (if onUpdate sq then [CallOnUpdate (Fin 0)] else [])
            @ [EvUpdate (id_seq sq) (Fin 0)
                 (foldl (\<lambda>fd track. AList.update (id_trk track) (interpolateTrack track 0) fd)
                    [] (tracks sq))]"
proof -
  have z: "interpolateTrackAt track (js_mul (Fin 0) (duration sq)) = interpolateTrack track 0"
    for track
    by (rule interpolateTrackAt_zero[OF wrap_time_zero[OF assms(4)]])
  show ?thesis
    unfolding update_wraps[OF assms]
    using assms(2) by (simp add: updateTracks_def Let_def loopEvents_def z)
qed

text \<open>
  Duration 10, looping, speed 1, started at 0: one \<open>update\<close> at 25000 ms restarts the
  sequence there (progress 0, one more \<open>loop\<close> event). With duration 0 the computed
  progress is \<open>Infinity\<close>, and the sequence restarts likewise. When \<open>update\<close> is
  called at 10 s, 20 s and 25 s on the ten-second sequence, each of the first two calls
  restarts the sequence, and the third gives progress 0.5 after two \<open>loop\<close> events.
\<close>

theorem update_loop_restarts_witness:
  "currentSequence (started demo_sequence) = Some demo_sequence
   \<and> isPlaying (started demo_sequence) \<and> loop demo_sequence
   \<and> js_ge (js_div (elapsed 25000 (started demo_sequence)) (duration demo_sequence)) (Fin 1)
   \<and> startTime (update 25000 (started demo_sequence)) = 25000
   \<and> progress (update 25000 (started demo_sequence)) = Fin 0
   \<and> loopEvents (update 25000 (started demo_sequence)) = loopEvents (started demo_sequence) + 1
   \<and> duration zero_sequence = Fin 0
   \<and> js_div (elapsed 25000 (started zero_sequence)) (duration zero_sequence) = PosInf
   \<and> progress (update 25000 (started zero_sequence)) = Fin 0
   \<and> loopEvents (update 25000 (started zero_sequence)) = loopEvents (started zero_sequence) + 1
   \<and> progress (update 25000 (update 20000 (update 10000 (started demo_sequence)))) = Fin (1 / 2)
   \<and> loopEvents (update 25000 (update 20000 (update 10000 (started demo_sequence)))) = 2"
proof -
  have ge: "js_ge (js_div (elapsed 25000 (started demo_sequence)) (duration demo_sequence)) (Fin 1)"
    by (simp add: demo_single_tick js_ge_def js_le_def)
  show ?thesis
    using update_loop_restarts[OF demo_started(1,2) demo_sequence_fields(3) ge]
      update_loop_restarts[OF zero_started(1,2) zero_sequence_fields(3) zero_single_tick(2)]
      ge demo_three_ticks zero_single_tick(1)
    by (simp add: demo_started zero_started demo_sequence_fields zero_sequence_fields)
qed

text \<open>
  Duration 10, looping, speed 1, started at 0: one \<open>update\<close> at 25000 ms computes
  progress 2.5 and leaves progress 0 after one \<open>loop\<close> event, not 0.5 after two.
\<close>

theorem update_loop_mod_counterexample:
  "loop demo_sequence \<and> duration demo_sequence = Fin 10
   \<and> currentSequence (started demo_sequence) = Some demo_sequence
   \<and> isPlaying (started demo_sequence) \<and> speed (started demo_sequence) = 1
   \<and> startTime (started demo_sequence) = 0 \<and> loopEvents (started demo_sequence) = 0
   \<and> js_div (elapsed 25000 (started demo_sequence)) (duration demo_sequence) = Fin (5 / 2)
   \<and> progress (update 25000 (started demo_sequence)) = Fin 0
   \<and> loopEvents (update 25000 (started demo_sequence)) = 1"
  using demo_single_tick by (simp add: demo_started demo_sequence_fields)

subsection \<open>Pause and resume\<close>

text \<open>Resuming: no time has been played at the clock reading of \<open>play\<close>.\<close>

lemma elapsed_at_start: "startTime s = now \<Longrightarrow> js_zero (elapsed now s)"
proof -
  assume "startTime s = now"
  then have "js_sub (Fin now) (Fin (startTime s)) = Fin 0"
    by (simp add: js_sub_def js_fin_def js_huge_def)
  then show ?thesis
    by (simp add: elapsed_def js_mul_def js_zero_def js_infinite_def js_sign_def)
qed

lemma js_div_zero:
  assumes "js_zero e"
  shows "if js_zero d \<or> d = JsNaN then js_div e d = JsNaN else js_zero (js_div e d)"
  using assms by (cases d) (auto simp: js_div_def js_zero_def js_infinite_def js_sign_def)

lemma not_ge_1: "a = JsNaN \<or> js_zero a \<Longrightarrow> \<not> js_ge a (Fin 1)"
  by (auto simp: js_ge_def js_le_def js_zero_def)

lemma resume_progress:
  assumes c: "currentSequence s = Some sq"
  shows "progress (update now (play now None (pause s)))
           = js_div (elapsed now (play now None (pause s))) (duration sq)"
    and "js_zero (elapsed now (play now None (pause s)))"
proof -
  let ?r = "play now None (pause s)"
  have cp: "currentSequence (pause s) = Some sq" using c by (simp add: pause_fields)
  have r: "currentSequence ?r = Some sq" "isPlaying ?r" "startTime ?r = now"
    by (simp_all add: play_resume[OF cp] pause_fields c)
  show z: "js_zero (elapsed now ?r)" by (rule elapsed_at_start[OF r(3)])
  have "js_div (elapsed now ?r) (duration sq) = JsNaN \<or> js_zero (js_div (elapsed now ?r) (duration sq))"
    using js_div_zero[OF z, of "duration sq"] by (auto split: if_splits)
  then have "\<not> js_ge (js_div (elapsed now ?r) (duration sq)) (Fin 1)" by (rule not_ge_1)
  from update_advances[OF r(1,2) this]
  show "progress (update now ?r) = js_div (elapsed now ?r) (duration sq)"
    by (simp add: updateTracks_fields)
qed

text \<open>
  C3 (as amended). \<open>pause\<close> clears the playing flag and leaves progress, start time,
  current sequence and speed as they are; while paused, \<open>update\<close> changes nothing,
  however late it is called. The class has no resume that keeps the position:
  \<open>play()\<close> sets the start time to the current clock reading, so an \<open>update\<close> at that
  same reading computes zero divided by the duration: the progress is zero, whatever it
  was at the pause, and it is \<open>NaN\<close> when the duration is zero or \<open>NaN\<close>.
\<close>

theorem pause_then_play_restarts:
  "isPlaying (pause s) = False \<and> progress (pause s) = progress s
   \<and> startTime (pause s) = startTime s \<and> currentSequence (pause s) = currentSequence s
   \<and> speed (pause s) = speed s
   \<and> update later (pause s) = pause s
   \<and> (\<forall>sq. currentSequence s = Some sq \<longrightarrow>
         (if js_zero (duration sq) \<or> duration sq = JsNaN
          then progress (update now (play now None (pause s))) = JsNaN
          else js_zero (progress (update now (play now None (pause s))))))"
proof -
  have "if js_zero (duration sq) \<or> duration sq = JsNaN
        then progress (update now (play now None (pause s))) = JsNaN
        else js_zero (progress (update now (play now None (pause s))))"
    if c: "currentSequence s = Some sq" for sq
    unfolding resume_progress(1)[OF c] by (rule js_div_zero[OF resume_progress(2)[OF c]])
  then show ?thesis by (simp add: pause_fields update_idle)
qed

lemma demo_at_5s:
  "progress (update 5000 (started demo_sequence)) = Fin (1 / 2)"
  "isPlaying (update 5000 (started demo_sequence))"
  "currentSequence (update 5000 (started demo_sequence)) = Some demo_sequence"
  using demo_advances[of "started demo_sequence" 5000] by (simp_all add: demo_started)

lemma zero_at_0:
  "currentSequence (update 0 (started zero_sequence)) = Some zero_sequence"
proof -
  have z: "js_zero (elapsed 0 (started zero_sequence))"
    by (rule elapsed_at_start) (simp add: zero_started)
  have "js_div (elapsed 0 (started zero_sequence)) (duration zero_sequence) = JsNaN"
    using js_div_zero[OF z, of "duration zero_sequence"]
    by (simp add: zero_sequence_fields js_zero_def)
  then have "\<not> js_ge (js_div (elapsed 0 (started zero_sequence)) (duration zero_sequence)) (Fin 1)"
    by (simp add: not_ge_1)
  from update_advances[OF zero_started(1,2) this] show ?thesis
    by (simp add: updateTracks_fields zero_started)
qed

lemma resume_fin_zero:
  assumes c: "currentSequence s = Some demo_sequence" and sp: "speed s = 1"
  shows "progress (update now (play now None (pause s))) = Fin 0"
proof -
  let ?r = "play now None (pause s)"
  have cp: "currentSequence (pause s) = Some demo_sequence" using c by (simp add: pause_fields)
  have r: "speed ?r = 1" "startTime ?r = now"
    by (simp_all add: play_resume[OF cp] pause_fields sp)
  have "elapsed now ?r = Fin 0" using elapsed_speed_1[of ?r now] r by simp
  then show ?thesis
    unfolding resume_progress(1)[OF c]
    by (simp add: demo_sequence_fields js_div_def js_zero_def js_infinite_def js_sign_def)
qed

lemma demo_5s_speed: "speed (update 5000 (started demo_sequence)) = 1"
proof -
  have nge: "\<not> js_ge (js_div (elapsed 5000 (started demo_sequence)) (duration demo_sequence)) (Fin 1)"
    using demo_progress[of "started demo_sequence" 5000]
    by (simp add: demo_started js_ge_def js_le_def)
  show ?thesis
    unfolding update_advances[OF demo_started(1,2) nge]
    by (simp add: updateTracks_fields demo_started)
qed

text \<open>
  The ten-second sequence paused at progress 0.5: an \<open>update\<close> a minute later changes
  nothing; after \<open>play()\<close> the progress is 0. The sequence of duration 0, paused and
  played again: the progress is \<open>NaN\<close>.
\<close>

theorem pause_then_play_restarts_witness:
  "progress (pause (update 5000 (started demo_sequence))) = Fin (1 / 2)
   \<and> isPlaying (pause (update 5000 (started demo_sequence))) = False
   \<and> update 60000 (pause (update 5000 (started demo_sequence)))
       = pause (update 5000 (started demo_sequence))
   \<and> currentSequence (update 5000 (started demo_sequence)) = Some demo_sequence
   \<and> duration demo_sequence = Fin 10
   \<and> progress (update 60000 (play 60000 None (pause (update 5000 (started demo_sequence))))) = Fin 0
   \<and> currentSequence (update 0 (started zero_sequence)) = Some zero_sequence
   \<and> duration zero_sequence = Fin 0
   \<and> progress (update 60000 (play 60000 None (pause (update 0 (started zero_sequence))))) = JsNaN"
  using pause_then_play_restarts[of "update 5000 (started demo_sequence)" 60000 60000]
    pause_then_play_restarts[of "update 0 (started zero_sequence)" 60000 60000]
    resume_fin_zero[OF demo_at_5s(3) demo_5s_speed, of 60000]
  by (simp add: demo_at_5s zero_at_0 demo_sequence_fields zero_sequence_fields js_zero_def)

text \<open>
  Paused at progress 0.5 and resumed with \<open>play()\<close> at 8000 ms, the \<open>update\<close> at
  8000 ms (no play time since the resume) yields progress 0, not 0.5.
\<close>

theorem pause_resume_counterexample:
  "isPlaying (update 5000 (started demo_sequence))
   \<and> progress (update 5000 (started demo_sequence)) = Fin (1 / 2)
   \<and> progress (pause (update 5000 (started demo_sequence))) = Fin (1 / 2)
   \<and> progress (update 8000 (play 8000 None (pause (update 5000 (started demo_sequence))))) = Fin 0
   \<and> progress (update 8000 (play 8000 None (pause (update 5000 (started demo_sequence)))))
       \<noteq> progress (pause (update 5000 (started demo_sequence)))"
  using resume_fin_zero[OF demo_at_5s(3) demo_5s_speed, of 8000]
  by (simp add: demo_at_5s pause_fields)

section \<open>Properties of the EffectManager\<close>

lemma notifyListeners_fields:
  "effects (notifyListeners s) = effects s"
  "activeEffects (notifyListeners s) = activeEffects s"
  "globalIntensity (notifyListeners s) = globalIntensity s"
  "length (notifications (notifyListeners s)) = Suc (length (notifications s))"
  by (simp_all add: notifyListeners_def)

lemma isEffectActive_keys: "isEffectActive s i \<longleftrightarrow> i \<in> fst ` set (activeEffects s)"
  by (simp add: isEffectActive_def map_of_eq_None_iff)

lemma disableConflict_fields:
  "effects (disableConflict s c) = effects s"
  "activeEffects (disableConflict s c) = AList.delete c (activeEffects s)"
  "globalIntensity (disableConflict s c) = globalIntensity s"
  "length (notifications (disableConflict s c)) =
     length (notifications s) + (if isEffectActive s c then 1 else 0)"
  by (simp_all add: disableConflict_def disableEffect_def notifyListeners_fields
      isEffectActive_keys)

lemma delete_as_filter: "AList.delete c al = filter (\<lambda>p. fst p \<noteq> c) al"
  by (induction al) auto

lemma disableConflicts_effects: "effects (foldl disableConflict s cs) = effects s"
  by (induction cs arbitrary: s) (simp_all add: disableConflict_fields)

lemma disableConflicts_globalIntensity:
  "globalIntensity (foldl disableConflict s cs) = globalIntensity s"
  by (induction cs arbitrary: s) (simp_all add: disableConflict_fields)

lemma disableConflicts_active:
  "activeEffects (foldl disableConflict s cs) = filter (\<lambda>p. fst p \<notin> set cs) (activeEffects s)"
proof (induction cs arbitrary: s)
  case Nil
  then show ?case by simp
next
  case (Cons c cs)
  have "filter (\<lambda>p. fst p \<notin> set cs) (filter (\<lambda>p. fst p \<noteq> c) (activeEffects s))
        = filter (\<lambda>p. fst p \<notin> set (c # cs)) (activeEffects s)"
    by (simp add: conj_commute)
  then show ?case using Cons by (simp add: disableConflict_fields delete_as_filter)
qed

lemma disableConflicts_notifications:
  "length (notifications (foldl disableConflict s cs)) =
     length (notifications s) + card {c \<in> set cs. isEffectActive s c}"
proof (induction cs arbitrary: s)
  case Nil
  then show ?case by simp
next
  case (Cons c cs)
  let ?s1 = "disableConflict s c"
  have act: "\<And>x. isEffectActive ?s1 x \<longleftrightarrow> isEffectActive s x \<and> x \<noteq> c"
    by (auto simp: isEffectActive_keys disableConflict_fields delete_as_filter)
  have set1: "{x \<in> set cs. isEffectActive ?s1 x} = {x \<in> set cs. isEffectActive s x} - {c}"
    using act by auto
  have set2: "{x \<in> set (c # cs). isEffectActive s x} =
        (if isEffectActive s c then insert c {x \<in> set cs. isEffectActive s x}
         else {x \<in> set cs. isEffectActive s x})"
    by auto
  have fin: "finite {x \<in> set cs. isEffectActive s x}" by simp
  show ?case
  proof (cases "isEffectActive s c")
    case True
    have "card (insert c {x \<in> set cs. isEffectActive s x})
          = Suc (card ({x \<in> set cs. isEffectActive s x} - {c}))"
      using fin by (simp add: card.insert_remove)
    then show ?thesis using Cons[of ?s1] True set1 set2
      by (simp add: disableConflict_fields)
  next
    case False
    then have "c \<notin> {x \<in> set cs. isEffectActive s x}" by simp
    then have "{x \<in> set cs. isEffectActive s x} - {c} = {x \<in> set cs. isEffectActive s x}"
      by blast
    then show ?thesis using Cons[of ?s1] False set1 set2
      by (simp add: disableConflict_fields)
  qed
qed

lemma missingDeps_empty: "missingDeps s deps = [] \<longleftrightarrow> (\<forall>d\<in>set deps. isEffectActive s d)"
  by (induction deps) (auto simp: missingDeps_def)

lemma enableEffect_success:
  assumes "map_of (effects s) i = Some e" "depsSatisfied s e"
  shows "enableEffect now i x s =
    (True, notifyListeners
       ((case conflictsWith e of None \<Rightarrow> s | Some cs \<Rightarrow> foldl disableConflict s cs)
          \<lparr>activeEffects := AList.update i
             \<lparr>effect = e, enabled = True, intensity = max 0 (min 2 x),
              parameters = defaultParameters e, lastUpdate = now\<rparr>
             (activeEffects (case conflictsWith e of None \<Rightarrow> s
                             | Some cs \<Rightarrow> foldl disableConflict s cs))\<rparr>))"
  using assms
  by (auto simp: enableEffect_def depsSatisfied_def Let_def split: option.splits)

lemma enableEffect_failure:
  assumes "map_of (effects s) i = None \<or>
           (\<exists>e. map_of (effects s) i = Some e \<and> \<not> depsSatisfied s e)"
  shows "enableEffect now i x s = (False, s)"
  using assms
  by (auto simp: enableEffect_def depsSatisfied_def Let_def split: option.splits)

lemma map_of_update_same: "map_of (AList.update k v al) k = Some v"
  by (simp add: update_conv')

lemma setEffectParameters_fields:
  "effects (snd (setEffectParameters now i ps s)) = effects s"
  "fst ` set (activeEffects (snd (setEffectParameters now i ps s))) = fst ` set (activeEffects s)"
  by (auto simp: setEffectParameters_def notifyListeners_fields dom_update map_of_eq_None_iff
      split: option.splits dest: map_of_SomeD intro: rev_image_eqI)

lemma setEffectParameters_active:
  assumes "map_of (activeEffects s) i = Some st"
  shows "activeEffects (snd (setEffectParameters now i ps s)) =
           AList.update i (st\<lparr>parameters := parameters st ++ ps, lastUpdate := now\<rparr>)
             (activeEffects s)"
    and "effects (snd (setEffectParameters now i ps s)) = effects s"
    and "globalIntensity (snd (setEffectParameters now i ps s)) = globalIntensity s"
  using assms by (simp_all add: setEffectParameters_def notifyListeners_fields)

lemma depsSatisfied_cong:
  "dependencies e = dependencies e' \<Longrightarrow>
   fst ` set (activeEffects s) = fst ` set (activeEffects s') \<Longrightarrow>
   depsSatisfied s e = depsSatisfied s' e'"
  by (simp add: depsSatisfied_def missingDeps_empty isEffectActive_keys split: option.splits)

lemma enableEffect_new_state:
  assumes "map_of (effects s) i = Some e" "depsSatisfied s e"
  shows "fst (enableEffect now i x s)
       \<and> map_of (activeEffects (snd (enableEffect now i x s))) i =
           Some \<lparr>effect = e, enabled = True, intensity = max 0 (min 2 x),
                 parameters = defaultParameters e, lastUpdate = now\<rparr>"
  by (simp add: enableEffect_success[OF assms] notifyListeners_fields map_of_update_same)

lemma enableEffect_cases:
  "enableEffect now i x s = (False, s) \<or>
   (\<exists>e. map_of (effects s) i = Some e \<and> depsSatisfied s e \<and> fst (enableEffect now i x s))"
  using enableEffect_failure[of s i now x] enableEffect_new_state[of s i _ now x]
  by (cases "map_of (effects s) i") auto

lemma map_of_filter_keys:
  "map_of (filter (\<lambda>p. fst p \<notin> C) al) k = (if k \<in> C then None else map_of al k)"
  by (induction al) auto

lemma enableEffect_conflicts_active:
  assumes "map_of (effects s) i = Some e" "conflictsWith e = Some cs" "depsSatisfied s e"
  shows "activeEffects (snd (enableEffect now i x s)) =
           AList.update i
             \<lparr>effect = e, enabled = True, intensity = max 0 (min 2 x),
              parameters = defaultParameters e, lastUpdate = now\<rparr>
             (filter (\<lambda>p. fst p \<notin> set cs) (activeEffects s))"
    and "length (notifications (snd (enableEffect now i x s))) =
           length (notifications s) + card {c \<in> set cs. isEffectActive s c} + 1"
  using assms(2)
  by (simp_all add: enableEffect_success[OF assms(1,3)] notifyListeners_fields
      disableConflicts_active disableConflicts_notifications)

subsection \<open>The shipped catalog\<close>

lemma effects_new:
  "effects EffectManager_new = map (\<lambda>e. (id_eff e, e)) defaultEffects"
  by (simp add: EffectManager_new_def defaultEffects_def mk_effect_def)

lemma new_lookup_audio:
  "map_of (effects EffectManager_new) ''audio_reactive'' = Some (last defaultEffects)"
  "dependencies (last defaultEffects) = Some [''audio_context'']"
  "map_of (effects EffectManager_new) ''no_such_effect'' = None"
  by (simp_all add: EffectManager_new_def defaultEffects_def mk_effect_def)

lemma new_lookup_fire: "map_of (effects EffectManager_new) ''fire'' = Some (hd defaultEffects)"
  by (simp add: effects_new) (simp add: defaultEffects_def mk_effect_def)

lemma fire_plain:
  "dependencies (hd defaultEffects) = None" "conflictsWith (hd defaultEffects) = None"
  "defaultParameters (hd defaultEffects) =
     map_of [(''temperature'', JNum 1.0), (''spread'', JNum 1.0), (''turbulence'', JNum 0.8)]"
  by (simp_all add: defaultEffects_def mk_effect_def defaultParameters_def)

lemma new_enable_fire:
  "enableEffect now ''fire'' x EffectManager_new =
     (True, notifyListeners (EffectManager_new\<lparr>activeEffects :=
        [(''fire'', \<lparr>effect = hd defaultEffects, enabled = True, intensity = max 0 (min 2 x),
                    parameters = defaultParameters (hd defaultEffects), lastUpdate = now\<rparr>)]\<rparr>))"
proof -
  have d: "depsSatisfied EffectManager_new (hd defaultEffects)"
    by (simp add: depsSatisfied_def fire_plain)
  have a: "activeEffects EffectManager_new = []" by (simp add: EffectManager_new_def)
  show ?thesis
    by (simp add: enableEffect_success[OF new_lookup_fire d] fire_plain a)
qed

lemma new_fire_state:
  "effects (snd (enableEffect now ''fire'' x EffectManager_new)) = effects EffectManager_new"
  "activeEffects (snd (enableEffect now ''fire'' x EffectManager_new)) =
     [(''fire'', \<lparr>effect = hd defaultEffects, enabled = True, intensity = max 0 (min 2 x),
                 parameters = defaultParameters (hd defaultEffects), lastUpdate = now\<rparr>)]"
  "globalIntensity (snd (enableEffect now ''fire'' x EffectManager_new)) = 1"
  by (simp_all add: new_enable_fire notifyListeners_fields) (simp add: EffectManager_new_def)

subsection \<open>The catalog with conflicts\<close>

lemma demo_manager_bc_fields:
  "effects demo_manager_bc = [(''a'', demo_effect_a), (''b'', demo_effect_b), (''c'', demo_effect_c)]"
  "map fst (activeEffects demo_manager_bc) = [''b'', ''c'']"
  "length (notifications demo_manager_bc) = 2"
  by (simp_all add: demo_manager_bc_def demo_manager_def enableEffect_def demo_effect_a_def demo_effect_b_def demo_effect_c_def
      mk_effect_def missingDeps_def disableConflict_def isEffectActive_def notifyListeners_def
      Let_def)

lemma demo_manager_bc_active:
  "activeEffects demo_manager_bc =
     [(''b'', \<lparr>effect = demo_effect_b, enabled = True, intensity = 1,
               parameters = defaultParameters demo_effect_b, lastUpdate = 1\<rparr>),
      (''c'', \<lparr>effect = demo_effect_c, enabled = True, intensity = 1,
               parameters = defaultParameters demo_effect_c, lastUpdate = 2\<rparr>)]"
  by (simp add: demo_manager_bc_def demo_manager_def enableEffect_def demo_effect_a_def demo_effect_b_def demo_effect_c_def
      mk_effect_def missingDeps_def disableConflict_def isEffectActive_def notifyListeners_def
      Let_def)

subsection \<open>Rejected calls\<close>

text \<open>
  C4. \<open>enableEffect\<close> returns false and leaves the whole manager state as it was (the
  active effects and the global intensity with it) when the id is not in the catalog,
  and when one of the effect's declared dependencies is not active.
\<close>

theorem enableEffect_rejects:
  "(map_of (effects s) i = None \<longrightarrow> enableEffect now i x s = (False, s))
   \<and> (\<forall>e deps d. map_of (effects s) i = Some e \<and> dependencies e = Some deps
          \<and> d \<in> set deps \<and> \<not> isEffectActive s d
        \<longrightarrow> enableEffect now i x s = (False, s))"
proof -
  have "enableEffect now i x s = (False, s)"
    if "map_of (effects s) i = Some e" "dependencies e = Some deps" "d \<in> set deps"
       "\<not> isEffectActive s d" for e deps d
  proof -
    have "\<not> depsSatisfied s e" using that by (auto simp: depsSatisfied_def missingDeps_empty)
    then show ?thesis using that(1) enableEffect_failure by blast
  qed
  then show ?thesis using enableEffect_failure by blast
qed

text \<open>
  On a new manager: an id outside the catalog, and \<open>audio_reactive\<close>, whose dependency
  \<open>audio_context\<close> is not active.
\<close>

theorem enableEffect_rejects_witness:
  "map_of (effects EffectManager_new) ''no_such_effect'' = None
   \<and> enableEffect 0 ''no_such_effect'' 1 EffectManager_new = (False, EffectManager_new)
   \<and> map_of (effects EffectManager_new) ''audio_reactive'' = Some (last defaultEffects)
   \<and> dependencies (last defaultEffects) = Some [''audio_context'']
   \<and> \<not> isEffectActive EffectManager_new ''audio_context''
   \<and> enableEffect 0 ''audio_reactive'' 1 EffectManager_new = (False, EffectManager_new)"
proof -
  have c: "\<not> isEffectActive EffectManager_new ''audio_context''"
    by (simp add: isEffectActive_def EffectManager_new_def)
  show ?thesis
    using enableEffect_rejects[of EffectManager_new "''no_such_effect''" 0 1]
      enableEffect_rejects[of EffectManager_new "''audio_reactive''" 0 1]
      c new_lookup_audio
    by simp
qed

subsection \<open>Enabling an active effect again\<close>

text \<open>
  C10. For an effect that is already active and whose dependencies are satisfied,
  \<open>enableEffect\<close> succeeds again and replaces the effect's state: the intensity is the
  new one clamped to [0, 2] and the parameters are the catalog defaults. This also holds
  right after \<open>setEffectParameters\<close> has overridden parameters: the overrides are gone.
\<close>

theorem reenable_resets_state:
  assumes "isEffectActive s i" and "map_of (effects s) i = Some e" and "depsSatisfied s e"
  shows "fst (enableEffect now i x s)
       \<and> map_of (activeEffects (snd (enableEffect now i x s))) i =
           Some \<lparr>effect = e, enabled = True, intensity = max 0 (min 2 x),
                 parameters = defaultParameters e, lastUpdate = now\<rparr>
       \<and> fst (enableEffect now i x (snd (setEffectParameters now' i ps s)))
       \<and> map_of (activeEffects
            (snd (enableEffect now i x (snd (setEffectParameters now' i ps s))))) i =
           Some \<lparr>effect = e, enabled = True, intensity = max 0 (min 2 x),
                 parameters = defaultParameters e, lastUpdate = now\<rparr>"
proof -
  let ?s2 = "snd (setEffectParameters now' i ps s)"
  have e2: "map_of (effects ?s2) i = Some e"
    using assms(2) by (simp add: setEffectParameters_fields)
  have d2: "depsSatisfied ?s2 e"
    using assms(3) depsSatisfied_cong[of e e ?s2 s] by (simp add: setEffectParameters_fields)
  show ?thesis
    using enableEffect_new_state[OF assms(2,3)] enableEffect_new_state[OF e2 d2] by simp
qed

text \<open>
  \<open>fire\<close> enabled, its \<open>temperature\<close> overridden to 9, then enabled again with
  intensity 3: the intensity is 2 and the parameters are the defaults.
\<close>

theorem reenable_resets_state_witness:
  "isEffectActive (snd (enableEffect 0 ''fire'' 1.5 EffectManager_new)) ''fire''
   \<and> map_of (effects (snd (enableEffect 0 ''fire'' 1.5 EffectManager_new))) ''fire''
       = Some (hd defaultEffects)
   \<and> depsSatisfied (snd (enableEffect 0 ''fire'' 1.5 EffectManager_new)) (hd defaultEffects)
   \<and> map_option parameters
        (map_of (activeEffects (snd (setEffectParameters 1 ''fire'' [''temperature'' \<mapsto> JNum 9]
           (snd (enableEffect 0 ''fire'' 1.5 EffectManager_new))))) ''fire'')
       = Some (defaultParameters (hd defaultEffects) ++ [''temperature'' \<mapsto> JNum 9])
   \<and> map_of (activeEffects (snd (enableEffect 2 ''fire'' 3
          (snd (setEffectParameters 1 ''fire'' [''temperature'' \<mapsto> JNum 9]
             (snd (enableEffect 0 ''fire'' 1.5 EffectManager_new))))))) ''fire''
       = Some \<lparr>effect = hd defaultEffects, enabled = True, intensity = 2,
               parameters = defaultParameters (hd defaultEffects), lastUpdate = 2\<rparr>
   \<and> defaultParameters (hd defaultEffects) ''temperature'' = Some (JNum 1)"
proof -
  let ?s1 = "snd (enableEffect 0 ''fire'' 1.5 EffectManager_new)"
  have a: "isEffectActive ?s1 ''fire''" by (simp add: isEffectActive_def new_fire_state)
  have b: "map_of (effects ?s1) ''fire'' = Some (hd defaultEffects)"
    by (simp add: new_fire_state new_lookup_fire)
  have c: "depsSatisfied ?s1 (hd defaultEffects)" by (simp add: depsSatisfied_def fire_plain)
  have d: "map_option parameters
        (map_of (activeEffects (snd (setEffectParameters 1 ''fire'' [''temperature'' \<mapsto> JNum 9] ?s1)))
           ''fire'')
       = Some (defaultParameters (hd defaultEffects) ++ [''temperature'' \<mapsto> JNum 9])"
    by (simp add: setEffectParameters_def new_fire_state notifyListeners_fields)
  have e: "defaultParameters (hd defaultEffects) ''temperature'' = Some (JNum 1)"
    by (simp add: fire_plain)
  show ?thesis
    using reenable_resets_state[OF a b c, of 2 3 1 "[''temperature'' \<mapsto> JNum 9]"] a b c d e
    by simp
qed

subsection \<open>Conflicts\<close>

text \<open>
  C2 (as amended). When \<open>enableEffect\<close> succeeds for an effect with a conflict list,
  the new active map is the old one without the ids of the list, with the new state set
  for the enabled id: every conflicting effect is inactive afterwards (unless it is the
  enabled id itself), every other effect is untouched, whatever conflicts the disabled
  effects declare themselves. Listeners are notified once for each conflicting effect
  that was active (by its \<open>disableEffect\<close>) and once more at the end: at least twice
  when a conflicting effect was active.
\<close>

theorem enableEffect_disables_conflicts:
  assumes "map_of (effects s) i = Some e" and "conflictsWith e = Some cs"
    and "depsSatisfied s e"
  shows "fst (enableEffect now i x s)
       \<and> activeEffects (snd (enableEffect now i x s)) =
           AList.update i
             \<lparr>effect = e, enabled = True, intensity = max 0 (min 2 x),
              parameters = defaultParameters e, lastUpdate = now\<rparr>
             (filter (\<lambda>p. fst p \<notin> set cs) (activeEffects s))
       \<and> isEffectActive (snd (enableEffect now i x s)) i
       \<and> (\<forall>c\<in>set cs. c \<noteq> i \<longrightarrow> \<not> isEffectActive (snd (enableEffect now i x s)) c)
       \<and> (\<forall>k. k \<notin> set cs \<and> k \<noteq> i \<longrightarrow>
             map_of (activeEffects (snd (enableEffect now i x s))) k = map_of (activeEffects s) k)
       \<and> length (notifications (snd (enableEffect now i x s))) =
           length (notifications s) + card {c \<in> set cs. isEffectActive s c} + 1
       \<and> ((\<exists>c\<in>set cs. isEffectActive s c) \<longrightarrow>
           length (notifications s) + 2 \<le> length (notifications (snd (enableEffect now i x s))))"
proof -
  let ?s' = "snd (enableEffect now i x s)"
  note act = enableEffect_conflicts_active(1)[OF assms, of now x]
  note len = enableEffect_conflicts_active(2)[OF assms, of now x]
  have ok: "fst (enableEffect now i x s)"
    using enableEffect_new_state[OF assms(1,3)] by simp
  have on: "isEffectActive ?s' i"
    using enableEffect_new_state[OF assms(1,3), of now x] by (simp add: isEffectActive_def)
  have off: "\<forall>c\<in>set cs. c \<noteq> i \<longrightarrow> \<not> isEffectActive ?s' c"
    unfolding isEffectActive_def act by (simp add: update_conv' map_of_filter_keys)
  have rest: "\<forall>k. k \<notin> set cs \<and> k \<noteq> i \<longrightarrow>
      map_of (activeEffects ?s') k = map_of (activeEffects s) k"
    unfolding act by (simp add: update_conv' map_of_filter_keys)
  have two: "length (notifications s) + 2 \<le> length (notifications ?s')"
    if "\<exists>c\<in>set cs. isEffectActive s c"
  proof -
    from that have "{c \<in> set cs. isEffectActive s c} \<noteq> {}" by blast
    then have "0 < card {c \<in> set cs. isEffectActive s c}" by (simp add: card_gt_0_iff)
    then show ?thesis using len by simp
  qed
  show ?thesis using ok act on off rest len two by blast
qed

text \<open>
  With \<open>b\<close> and \<open>c\<close> active, enabling \<open>a\<close> (which conflicts with \<open>b\<close>) disables \<open>b\<close>;
  \<open>c\<close>, a conflict of \<open>b\<close> but not of \<open>a\<close>, stays active; two notifications are added.
\<close>

theorem enableEffect_disables_conflicts_witness:
  "map_of (effects demo_manager_bc) ''a'' = Some demo_effect_a
   \<and> conflictsWith demo_effect_a = Some [''b'']
   \<and> depsSatisfied demo_manager_bc demo_effect_a
   \<and> map fst (activeEffects demo_manager_bc) = [''b'', ''c'']
   \<and> map fst (activeEffects (snd (enableEffect 3 ''a'' 1 demo_manager_bc))) = [''c'', ''a'']
   \<and> length (notifications (snd (enableEffect 3 ''a'' 1 demo_manager_bc))) =
       length (notifications demo_manager_bc) + 2"
proof -
  have a: "map_of (effects demo_manager_bc) ''a'' = Some demo_effect_a" by (simp add: demo_manager_bc_fields)
  have b: "conflictsWith demo_effect_a = Some [''b'']" by (simp add: demo_effect_a_def)
  have c: "depsSatisfied demo_manager_bc demo_effect_a"
    by (simp add: depsSatisfied_def demo_effect_a_def mk_effect_def)
  have d: "{c \<in> set [''b'']. isEffectActive demo_manager_bc c} = {''b''}"
    using demo_manager_bc_fields(2) by (auto simp: isEffectActive_keys simp flip: set_map)
  have e: "map fst (filter (\<lambda>p. fst p \<notin> set [''b'']) (activeEffects demo_manager_bc)) = [''c'']"
    by (simp add: demo_manager_bc_active)
  show ?thesis
    using enableEffect_disables_conflicts[OF a b c, of 3 1] a b c d e demo_manager_bc_fields(2)
    by (simp add: update_keys)
qed

text \<open>
  With \<open>b\<close> and \<open>c\<close> active, enabling \<open>a\<close> (which conflicts with \<open>b\<close>) notifies the
  listeners twice: the notification count goes from 2 to 4.
\<close>

theorem enableEffect_one_notification_counterexample:
  "Option.bind (map_of (effects demo_manager_bc) ''a'') conflictsWith = Some [''b'']
   \<and> isEffectActive demo_manager_bc ''b''
   \<and> fst (enableEffect 3 ''a'' 1 demo_manager_bc)
   \<and> length (notifications demo_manager_bc) = 2
   \<and> length (notifications (snd (enableEffect 3 ''a'' 1 demo_manager_bc))) = 4"
  by (simp add: demo_manager_bc_def demo_manager_def enableEffect_def demo_effect_a_def demo_effect_b_def demo_effect_c_def
      mk_effect_def missingDeps_def disableConflict_def disableEffect_def isEffectActive_def notifyListeners_def
      Let_def getActiveEffects_def)

subsection \<open>The invariant of reachable states\<close>

lemma list_all_update:
  "list_all P al \<Longrightarrow> P (k, v) \<Longrightarrow> list_all P (AList.update k v al)"
  by (induction al) auto

lemma list_all_delete: "list_all P al \<Longrightarrow> list_all P (AList.delete k al)"
  by (induction al) auto

lemma registry_ok_notify: "registry_ok (notifyListeners s) = registry_ok s"
  by (simp add: registry_ok_def notifyListeners_fields)

lemma registry_ok_active_update:
  assumes "registry_ok s" "state_ok (effects s) (k, v)"
  shows "registry_ok (s\<lparr>activeEffects := AList.update k v (activeEffects s)\<rparr>)"
  using assms
  by (simp add: registry_ok_def distinct_update list_all_update)

lemma registry_ok_active_delete:
  assumes "registry_ok s"
  shows "registry_ok (s\<lparr>activeEffects := AList.delete k (activeEffects s)\<rparr>)"
  using assms
  by (simp add: registry_ok_def distinct_delete list_all_delete)

lemma active_in_catalog:
  assumes "registry_ok s" "isEffectActive s d"
  shows "map_of (effects s) d \<noteq> None"
proof -
  from assms(2) obtain st where "(d, st) \<in> set (activeEffects s)"
    by (auto simp: isEffectActive_keys)
  with assms(1) have "state_ok (effects s) (d, st)" by (auto simp: registry_ok_def list_all_iff)
  then show ?thesis by (simp add: state_ok_def)
qed

lemma enabled_is_plain:
  assumes ok: "registry_ok s" and e: "map_of (effects s) i = Some e" and d: "depsSatisfied s e"
  shows "dependencies e = None \<and> conflictsWith e = None"
proof -
  have "(i, e) \<in> set (effects s)" using e by (rule map_of_SomeD)
  with ok have c: "conflictsWith e = None"
    and dd: "case dependencies e of None \<Rightarrow> True | Some deps \<Rightarrow> \<exists>d\<in>set deps. map_of (effects s) d = None"
    by (auto simp: registry_ok_def catalog_plain_def)
  have "dependencies e = None"
  proof (cases "dependencies e")
    case (Some deps)
    with dd obtain x where x: "x \<in> set deps" "map_of (effects s) x = None" by auto
    from d Some x(1) have "isEffectActive s x" by (auto simp: depsSatisfied_def missingDeps_empty)
    with active_in_catalog[OF ok] x(2) show ?thesis by blast
  qed simp
  with c show ?thesis by simp
qed

lemma enableEffect_plain:
  assumes ok: "registry_ok s" and e: "map_of (effects s) i = Some e" and d: "depsSatisfied s e"
  shows "enableEffect now i x s =
    (True, notifyListeners
       (s\<lparr>activeEffects := AList.update i
             \<lparr>effect = e, enabled = True, intensity = max 0 (min 2 x),
              parameters = defaultParameters e, lastUpdate = now\<rparr> (activeEffects s)\<rparr>))"
  using enabled_is_plain[OF assms] by (simp add: enableEffect_success[OF e d])

lemma registry_ok_enableEffect:
  assumes "registry_ok s"
  shows "registry_ok (snd (enableEffect now i x s))"
proof -
  consider "enableEffect now i x s = (False, s)"
    | e where "map_of (effects s) i = Some e" "depsSatisfied s e"
    using enableEffect_cases by blast
  then show ?thesis
  proof cases
    case 1
    then show ?thesis using assms by simp
  next
    case 2
    have p: "dependencies e = None \<and> conflictsWith e = None"
      by (rule enabled_is_plain[OF assms 2])
    have "state_ok (effects s) (i, \<lparr>effect = e, enabled = True, intensity = max 0 (min 2 x),
              parameters = defaultParameters e, lastUpdate = now\<rparr>)"
      using 2(1) p by (simp add: state_ok_def)
    from registry_ok_active_update[OF assms this] show ?thesis
      by (simp add: enableEffect_plain[OF assms 2] registry_ok_notify)
  qed
qed

lemma registry_ok_enableEffect_opt:
  "registry_ok s \<Longrightarrow> registry_ok (snd (enableEffect_opt now i v s))"
  by (simp add: enableEffect_opt_def registry_ok_enableEffect)

lemma registry_ok_disableEffect:
  "registry_ok s \<Longrightarrow> registry_ok (snd (disableEffect i s))"
  by (simp add: disableEffect_def registry_ok_notify registry_ok_active_delete)

lemma registry_ok_toggleEffect:
  "registry_ok s \<Longrightarrow> registry_ok (snd (toggleEffect now i v s))"
  by (simp add: toggleEffect_def registry_ok_disableEffect registry_ok_enableEffect_opt)

lemma active_state_ok:
  "registry_ok s \<Longrightarrow> map_of (activeEffects s) i = Some st \<Longrightarrow> state_ok (effects s) (i, st)"
  by (auto simp: registry_ok_def list_all_iff dest: map_of_SomeD)

lemma registry_ok_setEffectIntensity:
  assumes "registry_ok s"
  shows "registry_ok (snd (setEffectIntensity now i x s))"
proof (cases "map_of (activeEffects s) i")
  case None
  then show ?thesis using assms by (simp add: setEffectIntensity_def)
next
  case (Some st)
  have "state_ok (effects s) (i, st\<lparr>intensity := max 0 (min 2 x), lastUpdate := now\<rparr>)"
    using active_state_ok[OF assms Some] by (simp add: state_ok_def)
  from registry_ok_active_update[OF assms this] show ?thesis
    using Some by (simp add: setEffectIntensity_def registry_ok_notify)
qed

lemma registry_ok_setEffectParameters:
  assumes "registry_ok s"
  shows "registry_ok (snd (setEffectParameters now i ps s))"
proof (cases "map_of (activeEffects s) i")
  case None
  then show ?thesis using assms by (simp add: setEffectParameters_def)
next
  case (Some st)
  have "state_ok (effects s) (i, st\<lparr>parameters := parameters st ++ ps, lastUpdate := now\<rparr>)"
    using active_state_ok[OF assms Some] by (auto simp: state_ok_def)
  from registry_ok_active_update[OF assms this] show ?thesis
    using Some by (simp add: setEffectParameters_def registry_ok_notify)
qed

lemma registry_ok_setGlobalIntensity:
  "registry_ok s \<Longrightarrow> registry_ok (setGlobalIntensity x s)"
  by (simp add: setGlobalIntensity_def registry_ok_notify)
     (simp add: registry_ok_def state_ok_def)

lemma registry_ok_disableAllEffects:
  "registry_ok s \<Longrightarrow> registry_ok (disableAllEffects s)"
  by (simp add: disableAllEffects_def registry_ok_notify) (simp add: registry_ok_def)

lemma registry_ok_enable_list:
  "registry_ok s \<Longrightarrow> registry_ok (foldl (\<lambda>s' i. snd (enableEffect now i x s')) s is)"
  by (induction "is" arbitrary: s) (simp_all add: registry_ok_enableEffect)

lemma registry_ok_enableAllEffects:
  "registry_ok s \<Longrightarrow> registry_ok (enableAllEffects now s)"
  by (simp add: enableAllEffects_def registry_ok_enable_list)

lemma registry_ok_enable_opt_list:
  "registry_ok s \<Longrightarrow> registry_ok (foldl (\<lambda>s' i. snd (enableEffect_opt now i v s')) s is)"
  by (induction "is" arbitrary: s) (simp_all add: registry_ok_enableEffect_opt)

lemma registry_ok_applyRecommendedSettings:
  "registry_ok s \<Longrightarrow> registry_ok (applyRecommendedSettings now t s)"
  by (simp add: applyRecommendedSettings_def Let_def registry_ok_enable_opt_list
      registry_ok_disableAllEffects)

lemma registry_ok_importEntry:
  assumes "registry_ok s"
  shows "registry_ok (importEntry now s entry)"
proof -
  obtain b s1 where r: "enableEffect_opt now (fst entry) (intensity_cfg (snd entry)) s = (b, s1)"
    by (cases "enableEffect_opt now (fst entry) (intensity_cfg (snd entry)) s")
  have "registry_ok s1"
    using registry_ok_enableEffect_opt[OF assms, of now "fst entry" "intensity_cfg (snd entry)"] r
    by simp
  then show ?thesis
    using r by (auto simp: importEntry_def registry_ok_setEffectParameters split: option.splits bool.splits)
qed

lemma registry_ok_import_list:
  "registry_ok s \<Longrightarrow> registry_ok (foldl (importEntry now) s entries)"
  by (induction entries arbitrary: s) (simp_all add: registry_ok_importEntry)

lemma registry_ok_importConfiguration:
  "registry_ok s \<Longrightarrow> registry_ok (importConfiguration now config s)"
  by (auto simp: importConfiguration_def Let_def registry_ok_import_list
      registry_ok_disableAllEffects registry_ok_setGlobalIntensity split: option.splits)

lemma registry_ok_new: "registry_ok EffectManager_new"
proof -
  have "catalog_plain (map (\<lambda>e. (id_eff e, e)) defaultEffects)"
    by (simp add: catalog_plain_def defaultEffects_def mk_effect_def)
  then show ?thesis
    by (simp add: registry_ok_def effects_new) (simp add: EffectManager_new_def)
qed

lemma reachable_registry_ok: "reachable s \<Longrightarrow> registry_ok s"
  by (induction rule: reachable.induct)
     (simp_all add: registry_ok_new registry_ok_enableEffect_opt registry_ok_disableEffect
        registry_ok_toggleEffect registry_ok_setEffectIntensity registry_ok_setEffectParameters
        registry_ok_setGlobalIntensity registry_ok_enableAllEffects registry_ok_disableAllEffects
        registry_ok_applyRecommendedSettings registry_ok_importConfiguration)

subsection \<open>Intensities\<close>

text \<open>
  C7. In every reachable state \<open>getEffectiveIntensity\<close> is 0 for an inactive id and
  the product of the effect's intensity and the global intensity for an active one, and
  both factors lie in [0, 2]: \<open>setGlobalIntensity\<close>, \<open>enableEffect\<close> and
  \<open>setEffectIntensity\<close> each store their argument clamped to [0, 2].
\<close>

theorem effective_intensity:
  assumes "reachable s"
  shows "(\<not> isEffectActive s i \<longrightarrow> getEffectiveIntensity s i = 0)
       \<and> (\<forall>st. map_of (activeEffects s) i = Some st \<longrightarrow>
             getEffectiveIntensity s i = intensity st * globalIntensity s
             \<and> 0 \<le> intensity st \<and> intensity st \<le> 2)
       \<and> 0 \<le> globalIntensity s \<and> globalIntensity s \<le> 2
       \<and> globalIntensity (setGlobalIntensity x s) = max 0 (min 2 x)
       \<and> (fst (enableEffect now i x s) \<longrightarrow>
             map_option intensity (map_of (activeEffects (snd (enableEffect now i x s))) i)
               = Some (max 0 (min 2 x)))
       \<and> (fst (setEffectIntensity now i x s) \<longrightarrow>
             map_option intensity (map_of (activeEffects (snd (setEffectIntensity now i x s))) i)
               = Some (max 0 (min 2 x)))"
proof -
  have ok: "registry_ok s" by (rule reachable_registry_ok[OF assms])
  have inactive: "\<not> isEffectActive s i \<longrightarrow> getEffectiveIntensity s i = 0"
    by (simp add: isEffectActive_def getEffectiveIntensity_def)
  have active: "\<forall>st. map_of (activeEffects s) i = Some st \<longrightarrow>
             getEffectiveIntensity s i = intensity st * globalIntensity s
             \<and> 0 \<le> intensity st \<and> intensity st \<le> 2"
    using active_state_ok[OF ok] by (auto simp: getEffectiveIntensity_def state_ok_def)
  have global: "0 \<le> globalIntensity s \<and> globalIntensity s \<le> 2"
    using ok by (simp add: registry_ok_def)
  have setg: "globalIntensity (setGlobalIntensity x s) = max 0 (min 2 x)"
    by (simp add: setGlobalIntensity_def notifyListeners_fields)
  have en: "fst (enableEffect now i x s) \<longrightarrow>
             map_option intensity (map_of (activeEffects (snd (enableEffect now i x s))) i)
               = Some (max 0 (min 2 x))"
    using enableEffect_cases[of now i x s] enableEffect_new_state[of s i _ now x] by auto
  have si: "fst (setEffectIntensity now i x s) \<longrightarrow>
             map_option intensity (map_of (activeEffects (snd (setEffectIntensity now i x s))) i)
               = Some (max 0 (min 2 x))"
    by (auto simp: setEffectIntensity_def notifyListeners_fields map_of_update_same
        split: option.splits)
  show ?thesis using inactive active global setg en si by blast
qed

text \<open>
  Enabling \<open>fire\<close> with intensity 1.5 on a new manager gives 1.5; after
  \<open>setGlobalIntensity(0.5)\<close> it is 0.75; an inactive id gives 0.
\<close>

theorem effective_intensity_witness:
  "reachable (setGlobalIntensity 0.5 (snd (enableEffect_opt 0 ''fire'' (Some 1.5) EffectManager_new)))
   \<and> getGlobalIntensity EffectManager_new = 1
   \<and> getEffectiveIntensity (snd (enableEffect_opt 0 ''fire'' (Some 1.5) EffectManager_new)) ''fire''
       = 1.5
   \<and> getEffectiveIntensity
        (setGlobalIntensity 0.5 (snd (enableEffect_opt 0 ''fire'' (Some 1.5) EffectManager_new)))
        ''fire'' = 0.75
   \<and> \<not> isEffectActive
        (setGlobalIntensity 0.5 (snd (enableEffect_opt 0 ''fire'' (Some 1.5) EffectManager_new)))
        ''water''
   \<and> getEffectiveIntensity
        (setGlobalIntensity 0.5 (snd (enableEffect_opt 0 ''fire'' (Some 1.5) EffectManager_new)))
        ''water'' = 0"
proof -
  have r: "reachable (setGlobalIntensity 0.5
             (snd (enableEffect_opt 0 ''fire'' (Some 1.5) EffectManager_new)))"
    by (intro reachable.intros)
  have g: "globalIntensity EffectManager_new = 1" by (simp add: EffectManager_new_def)
  show ?thesis
    using r effective_intensity[OF r, of "''water''" 0 0]
    by (simp add: enableEffect_opt_def new_enable_fire getEffectiveIntensity_def
        setGlobalIntensity_def notifyListeners_fields isEffectActive_def getGlobalIntensity_def g)
qed

subsection \<open>Configuration round trip\<close>

lemma update_fresh: "k \<notin> fst ` set al \<Longrightarrow> AList.update k v al = al @ [(k, v)]"
  by (induction al) auto

lemma export_entries_distinct:
  "distinct (map fst al) \<Longrightarrow> fst ` set acc \<inter> fst ` set al = {} \<Longrightarrow>
   foldl (\<lambda>cfg (i, st). AList.update i (g st) cfg) acc al = acc @ map (\<lambda>(i, st). (i, g st)) al"
proof (induction al arbitrary: acc)
  case Nil
  then show ?case by simp
next
  case (Cons p al)
  obtain i st where p: "p = (i, st)" by (cases p)
  have fresh: "i \<notin> fst ` set acc" using Cons.prems(2) p by auto
  have "fst ` set (acc @ [(i, g st)]) \<inter> fst ` set al = {}"
    using Cons.prems p by auto
  moreover have "distinct (map fst al)" using Cons.prems(1) by simp
  ultimately show ?case using Cons.IH[of "acc @ [(i, g st)]"] p fresh
    by (simp add: update_fresh)
qed

lemma exportConfiguration_distinct:
  assumes "distinct (map fst (activeEffects s))"
  shows "exportConfiguration s =
     \<lparr>globalIntensity_cfg = Some (globalIntensity s),
      activeEffects_cfg = Some (map (\<lambda>(i, st). (i, \<lparr>intensity_cfg = Some (intensity st),
                          parameters_cfg = Some (parameters st)\<rparr>)) (activeEffects s))\<rparr>"
  using export_entries_distinct[OF assms, of "[]"
      "\<lambda>st. \<lparr>intensity_cfg = Some (intensity st), parameters_cfg = Some (parameters st)\<rparr>"]
  by (simp add: exportConfiguration_def)

lemma importEntry_fresh:
  assumes ok: "state_ok (effects s) (i, st)" and fresh: "i \<notin> fst ` set (activeEffects s)"
  shows "activeEffects (importEntry now s (i, \<lparr>intensity_cfg = Some (intensity st),
                                parameters_cfg = Some (parameters st)\<rparr>))
           = activeEffects s @ [refreshed now (i, st)]"
    and "effects (importEntry now s (i, \<lparr>intensity_cfg = Some (intensity st),
                                parameters_cfg = Some (parameters st)\<rparr>)) = effects s"
    and "globalIntensity (importEntry now s (i, \<lparr>intensity_cfg = Some (intensity st),
                                parameters_cfg = Some (parameters st)\<rparr>)) = globalIntensity s"
proof -
  let ?e = "effect st"
  let ?new = "\<lparr>effect = ?e, enabled = True, intensity = max 0 (min 2 (intensity st)),
              parameters = defaultParameters ?e, lastUpdate = now\<rparr>"
  let ?s1 = "notifyListeners (s\<lparr>activeEffects := AList.update i ?new (activeEffects s)\<rparr>)"
  let ?entry = "(i, \<lparr>intensity_cfg = Some (intensity st), parameters_cfg = Some (parameters st)\<rparr>)"
  have e: "map_of (effects s) i = Some ?e" and dn: "dependencies ?e = None"
    and cn: "conflictsWith ?e = None" and en: "enabled st"
    and lo: "0 \<le> intensity st" and hi: "intensity st \<le> 2"
    and dm: "dom (defaultParameters ?e) \<subseteq> dom (parameters st)"
    using ok by (simp_all add: state_ok_def)
  have d: "depsSatisfied s ?e" by (simp add: depsSatisfied_def dn)
  have en1: "enableEffect now i (intensity st) s = (True, ?s1)"
    by (simp add: enableEffect_success[OF e d] cn)
  have look: "map_of (activeEffects ?s1) i = Some ?new"
    by (simp add: notifyListeners_fields map_of_update_same)
  have step: "importEntry now s ?entry = snd (setEffectParameters now i (parameters st) ?s1)"
    by (simp add: importEntry_def enableEffect_opt_def en1)
  have clamp: "max 0 (min 2 (intensity st)) = intensity st" using lo hi by simp
  have merge: "defaultParameters ?e ++ parameters st = parameters st"
  proof (rule ext)
    fix k show "(defaultParameters ?e ++ parameters st) k = parameters st k"
      using dm by (cases "parameters st k") (auto simp: map_add_def domIff split: option.splits)
  qed
  have st': "?new\<lparr>parameters := parameters ?new ++ parameters st, lastUpdate := now\<rparr>
             = st\<lparr>lastUpdate := now\<rparr>"
    using en by (simp add: clamp merge)
  have "activeEffects (importEntry now s ?entry) =
          AList.update i (st\<lparr>lastUpdate := now\<rparr>) (AList.update i ?new (activeEffects s))"
    unfolding step setEffectParameters_active(1)[OF look] st'
    by (simp add: notifyListeners_fields)
  also have "\<dots> = AList.update i (st\<lparr>lastUpdate := now\<rparr>) (activeEffects s)"
    by simp
  also have "\<dots> = activeEffects s @ [(i, st\<lparr>lastUpdate := now\<rparr>)]"
    by (rule update_fresh[OF fresh])
  finally show "activeEffects (importEntry now s ?entry) = activeEffects s @ [refreshed now (i, st)]"
    by (simp add: refreshed_def)
  show "effects (importEntry now s ?entry) = effects s"
    unfolding step setEffectParameters_active(2)[OF look] by (simp add: notifyListeners_fields)
  show "globalIntensity (importEntry now s ?entry) = globalIntensity s"
    unfolding step setEffectParameters_active(3)[OF look] by (simp add: notifyListeners_fields)
qed

lemma import_entries:
  "list_all (state_ok (effects s)) al \<Longrightarrow> distinct (map fst al) \<Longrightarrow>
   fst ` set (activeEffects s) \<inter> fst ` set al = {} \<Longrightarrow>
   activeEffects (foldl (importEntry now) s (map exported al))
     = activeEffects s @ map (refreshed now) al
   \<and> effects (foldl (importEntry now) s (map exported al)) = effects s
   \<and> globalIntensity (foldl (importEntry now) s (map exported al)) = globalIntensity s"
proof (induction al arbitrary: s)
  case Nil
  then show ?case by simp
next
  case (Cons p al)
  obtain i st where p: "p = (i, st)" by (cases p)
  let ?s1 = "importEntry now s (exported p)"
  have ok: "state_ok (effects s) (i, st)" using Cons.prems(1) p by simp
  have fresh: "i \<notin> fst ` set (activeEffects s)" using Cons.prems(3) p by auto
  have ex: "exported p = (i, \<lparr>intensity_cfg = Some (intensity st),
                                parameters_cfg = Some (parameters st)\<rparr>)"
    by (simp add: exported_def p)
  have f: "activeEffects ?s1 = activeEffects s @ [refreshed now p]"
    "effects ?s1 = effects s" "globalIntensity ?s1 = globalIntensity s"
    unfolding ex using importEntry_fresh[OF ok fresh, of now] by (simp_all add: p)
  have 1: "list_all (state_ok (effects ?s1)) al" using Cons.prems(1) by (simp add: f(2))
  have 2: "distinct (map fst al)" using Cons.prems(2) by simp
  have 3: "fst ` set (activeEffects ?s1) \<inter> fst ` set al = {}"
    unfolding f(1) using Cons.prems(2,3) p by (auto simp: refreshed_def)
  have "foldl (importEntry now) s (map exported (p # al))
        = foldl (importEntry now) ?s1 (map exported al)"
    by simp
  with Cons.IH[OF 1 2 3] show ?case unfolding f by simp
qed

lemma view_refreshed: "map stateView (map (refreshed now) al) = map stateView al"
  by (simp add: stateView_def refreshed_def)

text \<open>
  C8. The export of any state that a manager can reach through its public methods,
  imported into any manager with the same catalog (the exporting manager itself or
  another one, whatever is active there), restores the global intensity and the active
  effects of the exporting state, in the same order, each with the same effect,
  intensity and parameter bag (only \<open>lastUpdate\<close> is new).
\<close>

theorem configuration_round_trip:
  assumes "reachable s" and "effects t = effects s"
  shows "registryView (importConfiguration now (exportConfiguration s) t) = registryView s"
proof -
  have ok: "registry_ok s" by (rule reachable_registry_ok[OF assms(1)])
  then have dist: "distinct (map fst (activeEffects s))"
    and all: "list_all (state_ok (effects s)) (activeEffects s)"
    and lo: "0 \<le> globalIntensity s" and hi: "globalIntensity s \<le> 2"
    by (simp_all add: registry_ok_def)
  let ?s1 = "setGlobalIntensity (globalIntensity s) (disableAllEffects t)"
  have ex: "exportConfiguration s =
     \<lparr>globalIntensity_cfg = Some (globalIntensity s),
      activeEffects_cfg = Some (map exported (activeEffects s))\<rparr>"
    by (simp add: exportConfiguration_distinct[OF dist] exported_def case_prod_beta)
  have imp: "importConfiguration now (exportConfiguration s) t
             = foldl (importEntry now) ?s1 (map exported (activeEffects s))"
    by (simp add: importConfiguration_def ex Let_def)
  have s1: "activeEffects ?s1 = []" "effects ?s1 = effects s" "globalIntensity ?s1 = globalIntensity s"
    using lo hi assms(2)
    by (simp_all add: setGlobalIntensity_def disableAllEffects_def notifyListeners_fields)
  have "list_all (state_ok (effects ?s1)) (activeEffects s)" using all by (simp add: s1)
  moreover have "fst ` set (activeEffects ?s1) \<inter> fst ` set (activeEffects s) = {}"
    by (simp add: s1)
  ultimately have r:
    "activeEffects (foldl (importEntry now) ?s1 (map exported (activeEffects s)))
       = map (refreshed now) (activeEffects s)"
    "globalIntensity (foldl (importEntry now) ?s1 (map exported (activeEffects s)))
       = globalIntensity s"
    using import_entries[of ?s1 "activeEffects s" now] dist by (simp_all add: s1)
  show ?thesis
    unfolding registryView_def imp r view_refreshed by simp
qed

text \<open>
  A manager with \<open>fire\<close> at intensity 1.5, \<open>temperature\<close> overridden to 3, global
  intensity 0.5. Its export is imported into a manager with \<open>fire\<close> at intensity 0.25
  and global intensity 2, and into itself: both then show the view of the first.
\<close>

theorem configuration_round_trip_witness:
  "reachable (setGlobalIntensity 0.5
       (snd (setEffectParameters 2 ''fire'' [''temperature'' \<mapsto> JNum 3]
          (snd (enableEffect_opt 1 ''fire'' (Some 1.5) EffectManager_new)))))
   \<and> effects (setGlobalIntensity 2 (snd (enableEffect_opt 3 ''fire'' (Some 0.25) EffectManager_new)))
     = effects (setGlobalIntensity 0.5
       (snd (setEffectParameters 2 ''fire'' [''temperature'' \<mapsto> JNum 3]
          (snd (enableEffect_opt 1 ''fire'' (Some 1.5) EffectManager_new)))))
   \<and> registryView (setGlobalIntensity 2
         (snd (enableEffect_opt 3 ''fire'' (Some 0.25) EffectManager_new)))
     = (2, [(''fire'', hd defaultEffects, True, 0.25, defaultParameters (hd defaultEffects))])
   \<and> registryView (importConfiguration 9
        (exportConfiguration (setGlobalIntensity 0.5
          (snd (setEffectParameters 2 ''fire'' [''temperature'' \<mapsto> JNum 3]
             (snd (enableEffect_opt 1 ''fire'' (Some 1.5) EffectManager_new))))))
        (setGlobalIntensity 2 (snd (enableEffect_opt 3 ''fire'' (Some 0.25) EffectManager_new))))
     = (0.5, [(''fire'', hd defaultEffects, True, 1.5,
               defaultParameters (hd defaultEffects) ++ [''temperature'' \<mapsto> JNum 3])])
   \<and> registryView (importConfiguration 9
        (exportConfiguration (setGlobalIntensity 0.5
          (snd (setEffectParameters 2 ''fire'' [''temperature'' \<mapsto> JNum 3]
             (snd (enableEffect_opt 1 ''fire'' (Some 1.5) EffectManager_new))))))
        (setGlobalIntensity 0.5
          (snd (setEffectParameters 2 ''fire'' [''temperature'' \<mapsto> JNum 3]
             (snd (enableEffect_opt 1 ''fire'' (Some 1.5) EffectManager_new))))))
     = (0.5, [(''fire'', hd defaultEffects, True, 1.5,
               defaultParameters (hd defaultEffects) ++ [''temperature'' \<mapsto> JNum 3])])"
proof -
  let ?s = "setGlobalIntensity 0.5
       (snd (setEffectParameters 2 ''fire'' [''temperature'' \<mapsto> JNum 3]
          (snd (enableEffect_opt 1 ''fire'' (Some 1.5) EffectManager_new))))"
  let ?t = "setGlobalIntensity 2 (snd (enableEffect_opt 3 ''fire'' (Some 0.25) EffectManager_new))"
  have r: "reachable ?s" by (intro reachable.intros)
  have e: "effects ?t = effects ?s"
    by (simp add: setGlobalIntensity_def notifyListeners_fields
        setEffectParameters_def enableEffect_opt_def new_fire_state)
  have v: "registryView ?s = (0.5, [(''fire'', hd defaultEffects, True, 1.5,
               defaultParameters (hd defaultEffects) ++ [''temperature'' \<mapsto> JNum 3])])"
    by (simp add: registryView_def stateView_def setGlobalIntensity_def notifyListeners_fields
        setEffectParameters_def enableEffect_opt_def new_fire_state)
  have w: "registryView ?t
     = (2, [(''fire'', hd defaultEffects, True, 0.25, defaultParameters (hd defaultEffects))])"
    by (simp add: registryView_def stateView_def setGlobalIntensity_def notifyListeners_fields
        enableEffect_opt_def new_fire_state)
  show ?thesis
    using r e w configuration_round_trip[OF r e, of 9] configuration_round_trip[OF r refl, of 9] v
    by simp
qed

end
